theory Spec2Isabelle
  imports
    Complex_Main
    "HOL-Library.Char_ord"
    "HOL-Library.List_Lexorder"
    "HOL-Library.Product_Lexorder"
    "HOL-Library.Multiset"
begin

section \<open>Tables\<close>

text \<open>
  The module \<^verbatim>\<open>vivarium_output_processing.py\<close> works on pandas DataFrames. A column label is
  any hashable Python object; the ones the module meets are strings, \<^verbatim>\<open>None\<close> (the name of
  an unnamed index) and tuples of strings.
\<close>

datatype label = PNone | PStr string | PTuple "string list"

text \<open>
  A column-name argument as a caller passes it: a list, a \<^verbatim>\<open>pd.Index\<close>, or any other
  object (\<open>Scalar\<close>), which covers a single string, a tuple and \<^verbatim>\<open>None\<close>.
\<close>

datatype colarg = Scalar label | PyList "label list" | PdIndex "label list"

text \<open>
  A cell holds a categorical identifier, a number, or the missing value \<^verbatim>\<open>NaN\<close>.
  Numbers are exact: tables hold elements of \<open>'n\<close>, which is \<open>real\<close> for every input
  table. Rounding of floating-point sums is not modelled, and the two infinities, which
  only a division by zero produces, are values of \<open>xreal\<close>, the number type of the
  result of \<open>ratio\<close>.
\<close>

datatype 'n cell = Cat string | Num 'n | NaN

datatype xreal = Fin real | Inf bool

text \<open>
  A frame has named index levels, named columns, and rows; a row is its index key (one
  cell per level) and its data (one cell per column). The default \<^verbatim>\<open>RangeIndex\<close> is one
  level named \<open>PNone\<close> whose key is the position of the row.
\<close>

record 'n frame =
  index_names :: "label list"
  columns :: "label list"
  rows :: "('n cell list \<times> 'n cell list) list"

datatype value_error =
    Include_and_exclude
  | Broadcast_not_disjoint
  | No_id_specified
  | No_group_keys
  | No_levels
  | Cannot_insert
  | No_overlapping_names
  | Ambiguous_label

datatype error = ValueError value_error | KeyError | TypeError | NotImplementedError

definition VALUE_COLUMN :: label where
  "VALUE_COLUMN = PStr ''value''"

definition DRAW_COLUMN :: label where
  "DRAW_COLUMN = PStr ''input_draw''"

definition SCENARIO_COLUMN :: label where
  "SCENARIO_COLUMN = PStr ''scenario''"

definition MEASURE_COLUMN :: string where
  "MEASURE_COLUMN = ''measure''"

text \<open>
  \<^verbatim>\<open>INDEX_COLUMNS\<close> is a module global that \<^verbatim>\<open>set_global_index_columns\<close> overwrites. Every
  function that reads it takes its current value as its first argument.
\<close>

definition default_INDEX_COLUMNS :: "label list" where
  "default_INDEX_COLUMNS = [DRAW_COLUMN, SCENARIO_COLUMN]"

definition set_global_index_columns :: "label list \<Rightarrow> label list \<Rightarrow> label list" where
  "set_global_index_columns INDEX_COLUMNS index_columns = index_columns"

section \<open>The pandas operations the module calls\<close>

fun index_of :: "'a list \<Rightarrow> 'a \<Rightarrow> nat" where
  "index_of [] c = 0"
| "index_of (x # xs) c = (if x = c then 0 else Suc (index_of xs c))"

text \<open>The cell of a row under a label; a row too short reads as missing.\<close>

definition cell_of :: "label list \<Rightarrow> 'n cell list \<Rightarrow> label \<Rightarrow> 'n cell" where
  "cell_of names cells c =
     (let i = index_of names c in if i < length cells then cells ! i else NaN)"

text \<open>
  A fresh \<^verbatim>\<open>RangeIndex\<close>: the key of row \<open>i\<close> is the number \<open>i\<close>, which \<open>pos\<close> turns into
  a cell of the frame's number type.
\<close>

definition range_index ::
  "(nat \<Rightarrow> 'n cell) \<Rightarrow> ('n cell list) list \<Rightarrow> ('n cell list \<times> 'n cell list) list" where
  "range_index pos ds = map (\<lambda>(i, d). ([pos i], d)) (enumerate 0 ds)"

definition rpos :: "nat \<Rightarrow> real cell" where
  "rpos i = Num (real i)"

definition xpos :: "nat \<Rightarrow> xreal cell" where
  "xpos i = Num (Fin (real i))"

text \<open>A frame as \<^verbatim>\<open>pd.DataFrame(data, columns=cols)\<close> builds it, with the default index.\<close>

definition DataFrame :: "label list \<Rightarrow> (real cell list) list \<Rightarrow> real frame" where
  "DataFrame cols ds = \<lparr>index_names = [PNone], columns = cols, rows = range_index rpos ds\<rparr>"

fun string_of_nat :: "nat \<Rightarrow> string" where
  "string_of_nat n =
     (if n < 10 then [char_of (48 + n)]
      else string_of_nat (n div 10) @ [char_of (48 + n mod 10)])"

declare string_of_nat.simps [simp del]

text \<open>
  The column names \<^verbatim>\<open>reset_index\<close> gives the index levels: an unnamed level is called
  \<^verbatim>\<open>index\<close> (\<^verbatim>\<open>level_0\<close> if a column \<^verbatim>\<open>index\<close> exists) when it is the only level, and
  \<^verbatim>\<open>level_i\<close> in a MultiIndex.
\<close>

definition level_names :: "'n frame \<Rightarrow> label list" where
  "level_names df =
     map (\<lambda>(i, n).
        if n \<noteq> PNone then n
        else if length (index_names df) = 1 \<and> PStr ''index'' \<notin> set (columns df)
          then PStr ''index''
        else PStr (''level_'' @ string_of_nat i))
       (enumerate 0 (index_names df))"

text \<open>
  \<^verbatim>\<open>df.reset_index()\<close>: the index levels become the first columns, in order, and the index
  is a fresh \<^verbatim>\<open>RangeIndex\<close>. Each level is inserted with \<^verbatim>\<open>allow_duplicates=False\<close>, so a
  level whose name is a column already, or the name of another level, raises
  \<^verbatim>\<open>ValueError: cannot insert ..., already exists\<close>.
\<close>

definition pd_reset_index_with :: "(nat \<Rightarrow> 'n cell) \<Rightarrow> 'n frame \<Rightarrow> error + 'n frame" where
  "pd_reset_index_with pos df =
     (let names = level_names df in
      if \<not> distinct names \<or> list_ex (\<lambda>n. n \<in> set (columns df)) names
        then Inl (ValueError Cannot_insert)
      else Inr \<lparr>index_names = [PNone], columns = names @ columns df,
        rows = range_index pos (map (\<lambda>(k, d). k @ d) (rows df))\<rparr>)"

definition pd_reset_index :: "real frame \<Rightarrow> error + real frame" where
  "pd_reset_index df = pd_reset_index_with rpos df"

text \<open>
  \<^verbatim>\<open>df.set_index(keys)\<close> with a list of labels (\<^verbatim>\<open>drop=True\<close>, \<^verbatim>\<open>append=False\<close>): a label
  that is no column raises \<^verbatim>\<open>KeyError\<close>; an empty list raises
  \<^verbatim>\<open>ValueError: Must pass non-zero number of levels/codes\<close>; otherwise the old index is
  discarded, the key columns become the levels and leave the columns.
\<close>

definition drop_columns :: "label list \<Rightarrow> label list \<Rightarrow> 'n cell list \<Rightarrow> 'n cell list" where
  "drop_columns cols keys d = map snd (filter (\<lambda>(c, x). c \<notin> set keys) (zip cols d))"

definition pd_set_index :: "'n frame \<Rightarrow> label list \<Rightarrow> error + 'n frame" where
  "pd_set_index df keys =
     (if list_ex (\<lambda>k. k \<notin> set (columns df)) keys then Inl KeyError
      else if keys = [] then Inl (ValueError No_levels)
      else Inr \<lparr>index_names = keys,
        columns = filter (\<lambda>c. c \<notin> set keys) (columns df),
        rows = map (\<lambda>(k, d). (map (cell_of (columns df) d) keys, drop_columns (columns df) keys d))
                 (rows df)\<rparr>)"

text \<open>\<^verbatim>\<open>df.set_index(key, append=True)\<close> with one label: the column becomes the last level.\<close>

definition pd_set_index_append :: "'n frame \<Rightarrow> label \<Rightarrow> error + 'n frame" where
  "pd_set_index_append df key =
     (if key \<notin> set (columns df) then Inl KeyError
      else Inr \<lparr>index_names = index_names df @ [key],
        columns = filter (\<lambda>c. c \<noteq> key) (columns df),
        rows = map (\<lambda>(k, d). (k @ [cell_of (columns df) d key], drop_columns (columns df) [key] d))
                 (rows df)\<rparr>)"

text \<open>\<^verbatim>\<open>df[cols]\<close> with a list of labels: a label that is no column raises \<^verbatim>\<open>KeyError\<close>.\<close>

definition pd_select_columns :: "'n frame \<Rightarrow> label list \<Rightarrow> error + 'n frame" where
  "pd_select_columns df cols =
     (if list_ex (\<lambda>c. c \<notin> set (columns df)) cols then Inl KeyError
      else Inr \<lparr>index_names = index_names df, columns = cols,
        rows = map (\<lambda>(k, d). (k, map (cell_of (columns df) d) cols)) (rows df)\<rparr>)"

text \<open>
  \<^verbatim>\<open>df.columns.difference(other).to_list()\<close>: the labels of \<open>cols\<close> that are not in
  \<open>other\<close>, each once, sorted when they are comparable (all strings, or all tuples);
  otherwise pandas warns and leaves them unsorted.
\<close>

definition is_str :: "label \<Rightarrow> bool" where
  "is_str l = (case l of PStr s \<Rightarrow> True | _ \<Rightarrow> False)"

definition is_tuple :: "label \<Rightarrow> bool" where
  "is_tuple l = (case l of PTuple t \<Rightarrow> True | _ \<Rightarrow> False)"

definition str_of :: "label \<Rightarrow> string" where
  "str_of l = (case l of PStr s \<Rightarrow> s | _ \<Rightarrow> [])"

definition tuple_of :: "label \<Rightarrow> string list" where
  "tuple_of l = (case l of PTuple t \<Rightarrow> t | _ \<Rightarrow> [])"

definition sort_labels :: "label list \<Rightarrow> label list" where
  "sort_labels ls =
     (if list_all is_str ls then map PStr (sort (map str_of ls))
      else if list_all is_tuple ls then map PTuple (sort (map tuple_of ls))
      else ls)"

definition unique :: "'a list \<Rightarrow> 'a list" where
  "unique xs = rev (remdups (rev xs))"

definition index_difference :: "label list \<Rightarrow> label list \<Rightarrow> label list" where
  "index_difference cols other = sort_labels (unique (filter (\<lambda>c. c \<notin> set other) cols))"

section \<open>Column-name arguments\<close>

text \<open>
  \<^verbatim>\<open>_ensure_iterable\<close>. Of its three local methods only \<^verbatim>\<open>method1\<close> is called: an argument
  that is neither a \<^verbatim>\<open>list\<close> nor a \<^verbatim>\<open>pd.Index\<close> is wrapped in a list, a list or an Index
  is returned as it is. The result is given as the sequence of its elements. The frame
  is an argument that \<^verbatim>\<open>method1\<close> does not read.
\<close>

fun method1 :: "colarg \<Rightarrow> 'n frame \<Rightarrow> label list" where
  "method1 (PyList xs) df = xs"
| "method1 (PdIndex xs) df = xs"
| "method1 (Scalar x) df = [x]"

definition ensure_iterable :: "colarg \<Rightarrow> 'n frame \<Rightarrow> colarg \<Rightarrow> label list" where
  "ensure_iterable colnames df dflt =
     method1 (if colnames = Scalar PNone then dflt else colnames) df"

text \<open>
  \<^verbatim>\<open>_ensure_columns_not_levels\<close>: the index is reset when it has several levels or when its
  name is in \<open>column_list\<close> (the name of a MultiIndex is \<^verbatim>\<open>None\<close>).
\<close>

definition index_name :: "'n frame \<Rightarrow> label" where
  "index_name df = (case index_names df of [n] \<Rightarrow> n | _ \<Rightarrow> PNone)"

definition ensure_columns_not_levels :: "real frame \<Rightarrow> label list \<Rightarrow> error + real frame" where
  "ensure_columns_not_levels df column_list =
     (if length (index_names df) > 1 \<or> index_name df \<in> set column_list
      then pd_reset_index df else Inr df)"

section \<open>\<^verbatim>\<open>value\<close>\<close>

text \<open>
  \<^verbatim>\<open>value(df, include, exclude, value_cols)\<close>. An absent \<^verbatim>\<open>include\<close> or \<^verbatim>\<open>exclude\<close> is
  \<open>Scalar PNone\<close>.
\<close>

definition value_df ::
  "label list \<Rightarrow> real frame \<Rightarrow> colarg \<Rightarrow> colarg \<Rightarrow> colarg \<Rightarrow> error + real frame" where
  "value_df INDEX_COLUMNS df include exclude value_cols =
     (let value_cols = ensure_iterable value_cols df (Scalar PNone) in
      if include = Scalar PNone then
        (let exclude = ensure_iterable exclude df (PyList []);
             index_cols = index_difference (columns df) (value_cols @ exclude)
         in case pd_set_index df index_cols of
              Inl e \<Rightarrow> Inl e
            | Inr df' \<Rightarrow> pd_select_columns df' value_cols)
      else if exclude \<noteq> Scalar PNone then Inl (ValueError Include_and_exclude)
      else
        (let include = ensure_iterable include df (Scalar PNone);
             index_cols = include @ INDEX_COLUMNS
         in case pd_set_index df index_cols of
              Inl e \<Rightarrow> Inl e
            | Inr df' \<Rightarrow> pd_select_columns df' value_cols))"

section \<open>Grouped sums: \<^verbatim>\<open>marginalize\<close> and \<^verbatim>\<open>stratify\<close>\<close>

text \<open>An exception propagates: the rest of the function is skipped.\<close>

definition bind_e :: "error + 'a \<Rightarrow> ('a \<Rightarrow> error + 'b) \<Rightarrow> error + 'b" where
  "bind_e m f = (case m of Inl e \<Rightarrow> Inl e | Inr x \<Rightarrow> f x)"

text \<open>
  A group key of \<^verbatim>\<open>df.groupby(keys)\<close> names a column or, failing that, a named index level.
  A label that is both raises \<^verbatim>\<open>ValueError\<close> (ambiguous), one that is neither raises
  \<^verbatim>\<open>KeyError\<close>; the keys are looked at in order.
\<close>

definition is_level :: "'n frame \<Rightarrow> label \<Rightarrow> bool" where
  "is_level df c = (c \<noteq> PNone \<and> c \<in> set (index_names df))"

fun key_error :: "'n frame \<Rightarrow> label list \<Rightarrow> error option" where
  "key_error df [] = None"
| "key_error df (c # cs) =
     (if c \<in> set (columns df) then
        (if is_level df c then Some (ValueError Ambiguous_label) else key_error df cs)
      else if is_level df c then key_error df cs
      else Some KeyError)"

definition key_cell :: "'n frame \<Rightarrow> ('n cell list \<times> 'n cell list) \<Rightarrow> label \<Rightarrow> 'n cell" where
  "key_cell df r c =
     (if c \<in> set (columns df) then cell_of (columns df) (snd r) c
      else cell_of (index_names df) (fst r) c)"

definition group_key :: "'n frame \<Rightarrow> label list \<Rightarrow> ('n cell list \<times> 'n cell list) \<Rightarrow> 'n cell list" where
  "group_key df keys r = map (key_cell df r) keys"

text \<open>
  Keys are sorted as pandas sorts them: level by level, numbers before strings before
  missing values. \<open>sort_keys\<close> gives each key once, in that order.
\<close>

definition cell_rank :: "real cell \<Rightarrow> nat \<times> real \<times> string" where
  "cell_rank c = (case c of Num r \<Rightarrow> (0, r, []) | Cat s \<Rightarrow> (1, 0, s) | NaN \<Rightarrow> (2, 0, []))"

definition sort_keys :: "real cell list list \<Rightarrow> real cell list list" where
  "sort_keys ks = sort_key (map cell_rank) (remdups ks)"

definition is_cat :: "'n cell \<Rightarrow> bool" where
  "is_cat c = (case c of Cat s \<Rightarrow> True | _ \<Rightarrow> False)"

text \<open>What a cell adds to a sum: \<^verbatim>\<open>sum\<close> skips missing values.\<close>

definition num_of :: "real cell \<Rightarrow> real" where
  "num_of c = (case c of Num r \<Rightarrow> r | _ \<Rightarrow> 0)"

text \<open>
  The grouped sums of a list of rows: \<open>key\<close> gives the group key of a row and \<open>cell\<close> its
  cell under a label. Rows with a missing value in the key are dropped
  (\<^verbatim>\<open>dropna=True\<close>), the groups are the keys that occur (\<^verbatim>\<open>observed=True\<close>), sorted
  (\<^verbatim>\<open>sort=True\<close>), and each group gives one row: its key and, for each label of \<open>vals\<close>, the
  sum of the cells of the group.
\<close>

definition group_sums ::
  "('r \<Rightarrow> real cell list) \<Rightarrow> ('r \<Rightarrow> label \<Rightarrow> real cell) \<Rightarrow> label list \<Rightarrow> 'r list \<Rightarrow>
     (real cell list \<times> real cell list) list" where
  "group_sums key cell vals rs0 =
     (let rs = filter (\<lambda>r. NaN \<notin> set (key r)) rs0 in
      map (\<lambda>k. (k, map (\<lambda>v. Num (sum_list (map (\<lambda>r. num_of (cell r v))
                                        (filter (\<lambda>r. key r = k) rs)))) vals))
        (sort_keys (map key rs)))"

text \<open>
  \<^verbatim>\<open>df.groupby(keys, observed=True)[vals].sum()\<close>. Errors, in the order pandas meets them:
  a bad key; no key at all for a frame with rows (\<^verbatim>\<open>ValueError: No group keys passed!\<close>);
  a value label that is no column (\<^verbatim>\<open>KeyError\<close>); a summed column that holds a categorical
  cell (\<^verbatim>\<open>TypeError\<close>). The result is indexed by the keys and its columns are \<open>vals\<close>.
\<close>

definition pd_groupby_sum :: "real frame \<Rightarrow> label list \<Rightarrow> label list \<Rightarrow> error + real frame" where
  "pd_groupby_sum df keys vals =
     (case key_error df keys of
        Some e \<Rightarrow> Inl e
      | None \<Rightarrow>
          if keys = [] \<and> rows df \<noteq> [] then Inl (ValueError No_group_keys)
          else if list_ex (\<lambda>v. v \<notin> set (columns df)) vals then Inl KeyError
          else if list_ex (\<lambda>r. list_ex (\<lambda>v. is_cat (cell_of (columns df) (snd r) v)) vals) (rows df)
            then Inl TypeError
          else
            Inr \<lparr>index_names = (if keys = [] then [PNone] else keys), columns = vals,
              rows = group_sums (group_key df keys) (\<lambda>r. cell_of (columns df) (snd r)) vals
                       (rows df)\<rparr>)"

definition marginalize :: "real frame \<Rightarrow> colarg \<Rightarrow> colarg \<Rightarrow> bool \<Rightarrow> error + real frame" where
  "marginalize df marginalized_cols value_cols reset_index =
     (let marginalized_cols = ensure_iterable marginalized_cols df (Scalar PNone);
          value_cols = ensure_iterable value_cols df (Scalar PNone)
      in bind_e (ensure_columns_not_levels df marginalized_cols) (\<lambda>df.
           let index_cols = index_difference (columns df) (marginalized_cols @ value_cols)
           in bind_e (pd_groupby_sum df index_cols value_cols) (\<lambda>summed_data.
                if reset_index then pd_reset_index summed_data else Inr summed_data)))"

definition stratify ::
  "label list \<Rightarrow> real frame \<Rightarrow> colarg \<Rightarrow> colarg \<Rightarrow> bool \<Rightarrow> error + real frame" where
  "stratify INDEX_COLUMNS df strata value_cols reset_index =
     (let strata = ensure_iterable strata df (Scalar PNone);
          value_cols = ensure_iterable value_cols df (Scalar PNone);
          index_cols = strata @ INDEX_COLUMNS
      in bind_e (pd_groupby_sum df index_cols value_cols) (\<lambda>summed_data.
           if reset_index then pd_reset_index summed_data else Inr summed_data))"

section \<open>Arithmetic between two frames\<close>

text \<open>
  \<^verbatim>\<open>left - right\<close> and \<^verbatim>\<open>left / right\<close> first align the two indexes
  (\<^verbatim>\<open>Index.join(how='outer')\<close>) and then combine the rows that were paired; a row without a
  partner is combined with missing values.

  \<open>outer_join\<close> pairs the rows of two frames on a key: the keys that occur on either side,
  each once and sorted; under one key every left row meets every right row.
\<close>

definition outer_join ::
  "('a \<Rightarrow> real cell list) \<Rightarrow> ('b \<Rightarrow> real cell list) \<Rightarrow> 'a list \<Rightarrow> 'b list \<Rightarrow>
     (real cell list \<times> 'a option \<times> 'b option) list" where
  "outer_join kl kr L R =
     concat (map (\<lambda>k.
        let ls = filter (\<lambda>l. kl l = k) L; rs = filter (\<lambda>r. kr r = k) R
        in if rs = [] then map (\<lambda>l. (k, Some l, None)) ls
           else if ls = [] then map (\<lambda>r. (k, None, Some r)) rs
           else concat (map (\<lambda>l. map (\<lambda>r. (k, Some l, Some r)) rs) ls))
       (sort_keys (map kl L @ map kr R)))"

definition project :: "label list \<Rightarrow> label list \<Rightarrow> 'n cell list \<Rightarrow> 'n cell list" where
  "project names sub k = map (cell_of names k) sub"

definition restore :: "label list \<Rightarrow> label list \<Rightarrow> ('n cell list \<times> 'n cell list) option \<Rightarrow> 'n cell list" where
  "restore names dropped r =
     (case r of None \<Rightarrow> map (\<lambda>c. NaN) dropped | Some r \<Rightarrow> project names dropped (fst r))"

text \<open>
  The alignment, by the shape of the two indexes (an index of two or more levels is a
  MultiIndex):
  \<^item> equal indexes (\<^verbatim>\<open>Index.equals\<close> compares the keys, not the names): no join, the rows
    are paired in place;
  \<^item> different names, both MultiIndex: the levels of one side only are dropped, the rest is
    joined, and the dropped levels are restored after the common ones; no common name raises
    \<^verbatim>\<open>ValueError: cannot join with no overlapping index names\<close>;
  \<^item> different names, one MultiIndex: the plain index is matched against the level of its
    name. The result has the rows of the MultiIndex side and no others; a plain index with
    a repeated key raises \<^verbatim>\<open>NotImplementedError\<close>;
  \<^item> otherwise an outer join on the whole key.
\<close>

definition pd_align ::
  "real frame \<Rightarrow> real frame \<Rightarrow>
     error + (label list \<times> (real cell list \<times> real cell list option \<times> real cell list option) list)" where
  "pd_align L R =
     (let nl = index_names L; nr = index_names R in
      if length nl = length nr \<and> map fst (rows L) = map fst (rows R) then
        Inr (nl, map (\<lambda>(l, r). (fst l, Some (snd l), Some (snd r))) (zip (rows L) (rows R)))
      else if nl \<noteq> nr \<and> (length nl > 1 \<or> length nr > 1) then
        (let common = filter (\<lambda>n. n \<noteq> PNone \<and> n \<in> set nr) nl in
         if common = [] then Inl (ValueError No_overlapping_names)
         else if length nl > 1 \<and> length nr > 1 then
           (let ldrop = filter (\<lambda>n. n \<notin> set common) nl;
                rdrop = filter (\<lambda>n. n \<notin> set common) nr
            in Inr (common @ ldrop @ rdrop,
                 map (\<lambda>(k, l, r). (k @ restore nl ldrop l @ restore nr rdrop r,
                                    map_option snd l, map_option snd r))
                   (outer_join (\<lambda>l. project nl common (fst l)) (\<lambda>r. project nr common (fst r))
                      (rows L) (rows R))))
         else if length nl > 1 then
           (if \<not> distinct (map fst (rows R)) then Inl NotImplementedError
            else Inr (nl, map (\<lambda>l. (fst l, Some (snd l),
                     map_option snd (find (\<lambda>r. fst r = project nl nr (fst l)) (rows R))))
                   (rows L)))
         else
           (if \<not> distinct (map fst (rows L)) then Inl NotImplementedError
            else Inr (nr, map (\<lambda>r. (fst r,
                     map_option snd (find (\<lambda>l. fst l = project nr nl (fst r)) (rows L)),
                     Some (snd r)))
                   (rows R))))
      else
        Inr (if nl = nr then nl else [PNone],
          map (\<lambda>(k, l, r). (k, map_option snd l, map_option snd r))
            (outer_join fst fst (rows L) (rows R))))"

definition opt_cell :: "label list \<Rightarrow> 'n cell list option \<Rightarrow> label \<Rightarrow> 'n cell" where
  "opt_cell cols d c = (case d of None \<Rightarrow> NaN | Some d \<Rightarrow> cell_of cols d c)"

definition has_cat :: "'n frame \<Rightarrow> bool" where
  "has_cat df = list_ex (\<lambda>r. list_ex is_cat (snd r)) (rows df)"

text \<open>
  The operation \<open>f\<close> cell by cell on the aligned rows; \<open>emb\<close> carries an index cell into
  the number type of the result. A categorical data cell raises \<^verbatim>\<open>TypeError\<close>. At both
  places where the module computes with two frames they have the same columns, so the
  result has the columns of the left frame.
\<close>

definition pd_arith ::
  "(real cell \<Rightarrow> real cell \<Rightarrow> 'm cell) \<Rightarrow> (real cell \<Rightarrow> 'm cell) \<Rightarrow> real frame \<Rightarrow> real frame \<Rightarrow>
     error + 'm frame" where
  "pd_arith f emb L R =
     (if has_cat L \<or> has_cat R then Inl TypeError
      else bind_e (pd_align L R) (\<lambda>(names, aligned).
        Inr \<lparr>index_names = names, columns = columns L,
          rows = map (\<lambda>(k, dl, dr).
                    (map emb k,
                     map (\<lambda>c. f (opt_cell (columns L) dl c) (opt_cell (columns R) dr c)) (columns L)))
                   aligned\<rparr>))"

definition sub_cell :: "real cell \<Rightarrow> real cell \<Rightarrow> real cell" where
  "sub_cell a b = (case (a, b) of (Num x, Num y) \<Rightarrow> Num (x - y) | _ \<Rightarrow> NaN)"

text \<open>
  Division as pandas does it on floats: no exception at zero, but \<^verbatim>\<open>0/0 = NaN\<close> and
  \<^verbatim>\<open>x/0 = \<plusminus>inf\<close>.
\<close>

definition div_cell :: "real cell \<Rightarrow> real cell \<Rightarrow> xreal cell" where
  "div_cell a b =
     (case (a, b) of
        (Num x, Num y) \<Rightarrow>
          if y \<noteq> 0 then Num (Fin (x / y)) else if x = 0 then NaN else Num (Inf (0 < x))
      | _ \<Rightarrow> NaN)"

definition mul_cell :: "xreal cell \<Rightarrow> real \<Rightarrow> xreal cell" where
  "mul_cell a m =
     (case a of
        Num (Fin x) \<Rightarrow> Num (Fin (x * m))
      | Num (Inf s) \<Rightarrow> if m = 0 then NaN else Num (Inf (if 0 < m then s else \<not> s))
      | _ \<Rightarrow> a)"

definition xcell :: "real cell \<Rightarrow> xreal cell" where
  "xcell c = (case c of Cat s \<Rightarrow> Cat s | Num x \<Rightarrow> Num (Fin x) | NaN \<Rightarrow> NaN)"

section \<open>\<^verbatim>\<open>ratio\<close>\<close>

text \<open>\<^verbatim>\<open>'|'.join(df[measure_col].unique())\<close>: the column must exist and hold strings.\<close>

fun join_with :: "string \<Rightarrow> string list \<Rightarrow> string" where
  "join_with sep [] = []"
| "join_with sep [x] = x"
| "join_with sep (x # y # ys) = x @ sep @ join_with sep (y # ys)"

definition cat_of :: "'n cell \<Rightarrow> string" where
  "cat_of c = (case c of Cat s \<Rightarrow> s | _ \<Rightarrow> [])"

definition joined_measures :: "real frame \<Rightarrow> string \<Rightarrow> error + string" where
  "joined_measures df measure_col =
     (if PStr measure_col \<notin> set (columns df) then Inl KeyError
      else
        (let vs = unique (map (\<lambda>r. cell_of (columns df) (snd r) (PStr measure_col)) (rows df))
         in if list_ex (\<lambda>v. \<not> is_cat v) vs then Inl TypeError
            else Inr (join_with ''|'' (map cat_of vs))))"

text \<open>\<^verbatim>\<open>df[name] = scalar\<close>: a new last column, or a column overwritten.\<close>

definition assign_column :: "'n frame \<Rightarrow> label \<Rightarrow> 'n cell \<Rightarrow> 'n frame" where
  "assign_column df name c =
     (if name \<in> set (columns df) then
        df\<lparr>rows := map (\<lambda>(k, d).
              (k, map (\<lambda>(n, x). if n = name then c else x) (zip (columns df) d))) (rows df)\<rparr>
      else
        df\<lparr>columns := columns df @ [name],
           rows := map (\<lambda>(k, d). (k, map (cell_of (columns df) d) (columns df) @ [c])) (rows df)\<rparr>)"

text \<open>\<^verbatim>\<open>df.dropna()\<close>: the rows with a missing value in a column go.\<close>

definition dropna_rows :: "'n frame \<Rightarrow> 'n frame" where
  "dropna_rows df = df\<lparr>rows := filter (\<lambda>r. NaN \<notin> set (snd r)) (rows df)\<rparr>"

definition ratio ::
  "label list \<Rightarrow> real frame \<Rightarrow> real frame \<Rightarrow> colarg \<Rightarrow> real \<Rightarrow> colarg \<Rightarrow> colarg \<Rightarrow> colarg \<Rightarrow> string \<Rightarrow>
     bool \<Rightarrow> bool option \<Rightarrow> bool \<Rightarrow> error + xreal frame" where
  "ratio INDEX_COLUMNS numerator denominator strata multiplier numerator_broadcast
       denominator_broadcast value_col measure_col dropna record_inputs reset_index =
     bind_e (ensure_columns_not_levels numerator []) (\<lambda>numerator.
     bind_e (ensure_columns_not_levels denominator []) (\<lambda>denominator.
       let numerator_broadcast = ensure_iterable numerator_broadcast numerator (PyList []);
           denominator_broadcast = ensure_iterable denominator_broadcast denominator (PyList [])
       in
       if set numerator_broadcast \<inter> set denominator_broadcast \<noteq> {}
         then Inl (ValueError Broadcast_not_disjoint)
       else
         (let record_inputs = (case record_inputs of None \<Rightarrow> reset_index | Some b \<Rightarrow> b) in
          bind_e (if record_inputs then joined_measures numerator measure_col else Inr [])
            (\<lambda>numerator_measure.
          bind_e (if record_inputs then joined_measures denominator measure_col else Inr [])
            (\<lambda>denominator_measure.
            let strata = ensure_iterable strata denominator (Scalar PNone) in
            bind_e (stratify INDEX_COLUMNS numerator (PyList (strata @ numerator_broadcast))
                      value_col False) (\<lambda>numerator.
            bind_e (stratify INDEX_COLUMNS denominator (PyList (strata @ denominator_broadcast))
                      value_col False) (\<lambda>denominator.
            bind_e (pd_arith div_cell xcell numerator denominator) (\<lambda>quotient.
              let ratio0 = quotient\<lparr>rows := map (\<lambda>(k, d). (k, map (\<lambda>x. mul_cell x multiplier) d))
                                               (rows quotient)\<rparr>;
                  ratio1 = (if dropna then dropna_rows ratio0 else ratio0);
                  ratio2 = (if record_inputs then
                     assign_column
                       (assign_column
                          (assign_column ratio1 (PStr (''numerator_'' @ measure_col))
                             (Cat numerator_measure))
                          (PStr (''denominator_'' @ measure_col)) (Cat denominator_measure))
                       (PStr ''multiplier'') (Num (Fin multiplier))
                   else ratio1)
              in if reset_index then pd_reset_index_with xpos ratio2 else Inr ratio2))))))))"

section \<open>\<^verbatim>\<open>difference\<close> and \<^verbatim>\<open>averted\<close>\<close>

text \<open>
  \<^verbatim>\<open>==\<close> between a column and a scalar: a missing value equals nothing, itself included, so
  under \<^verbatim>\<open>!=\<close> it differs from everything.
\<close>

definition py_eq :: "'n cell \<Rightarrow> 'n cell \<Rightarrow> bool" where
  "py_eq a b = (a \<noteq> NaN \<and> b \<noteq> NaN \<and> a = b)"

text \<open>\<^verbatim>\<open>df[mask]\<close> with the mask computed from \<^verbatim>\<open>df[col]\<close>; a missing column raises \<^verbatim>\<open>KeyError\<close>.\<close>

definition select_rows :: "'n frame \<Rightarrow> label \<Rightarrow> ('n cell \<Rightarrow> bool) \<Rightarrow> error + 'n frame" where
  "select_rows df col p =
     (if col \<notin> set (columns df) then Inl KeyError
      else Inr (df\<lparr>rows := filter (\<lambda>r. p (cell_of (columns df) (snd r) col)) (rows df)\<rparr>))"

text \<open>
  \<^verbatim>\<open>df.insert(loc, name, scalar)\<close>: a name that is a column already raises \<^verbatim>\<open>ValueError\<close>.
\<close>

definition insert_column :: "'n frame \<Rightarrow> nat \<Rightarrow> label \<Rightarrow> 'n cell \<Rightarrow> error + 'n frame" where
  "insert_column df loc name c =
     (if name \<in> set (columns df) then Inl (ValueError Cannot_insert)
      else Inr (df\<lparr>columns := take loc (columns df) @ [name] @ drop loc (columns df),
        rows := map (\<lambda>(k, d).
                  (k, let d' = map (cell_of (columns df) d) (columns df)
                      in take loc d' @ [c] @ drop loc d')) (rows df)\<rparr>))"

definition get_loc :: "'n frame \<Rightarrow> label \<Rightarrow> error + nat" where
  "get_loc df c = (if c \<in> set (columns df) then Inr (index_of (columns df) c) else Inl KeyError)"

text \<open>
  The first block of \<^verbatim>\<open>difference\<close>: the rows of the minuend and of the subtrahend. An id
  that is not given is \<open>None\<close>.
\<close>

definition difference_operands ::
  "real frame \<Rightarrow> label \<Rightarrow> real cell option \<Rightarrow> real cell option \<Rightarrow> error + (real frame \<times> real frame)" where
  "difference_operands measure_df identifier_col minuend_id subtrahend_id =
     (case minuend_id of
        Some m \<Rightarrow>
          bind_e (select_rows measure_df identifier_col (\<lambda>x. py_eq x m)) (\<lambda>minuend.
            case subtrahend_id of
              Some s \<Rightarrow>
                bind_e (select_rows measure_df identifier_col (\<lambda>x. py_eq x s)) (\<lambda>subtrahend.
                  Inr (minuend, subtrahend))
            | None \<Rightarrow>
                bind_e (select_rows measure_df identifier_col (\<lambda>x. \<not> py_eq x m)) (\<lambda>subtrahend.
                  Inr (minuend, subtrahend)))
      | None \<Rightarrow>
          (case subtrahend_id of
             Some s \<Rightarrow>
               bind_e (select_rows measure_df identifier_col (\<lambda>x. py_eq x s)) (\<lambda>subtrahend.
               bind_e (select_rows measure_df identifier_col (\<lambda>x. \<not> py_eq x s)) (\<lambda>minuend.
                 Inr (minuend, subtrahend)))
           | None \<Rightarrow> Inl (ValueError No_id_specified)))"

text \<open>The columns to match on: all but the identifier and the value column, in order.\<close>

definition match_columns :: "real frame \<Rightarrow> label \<Rightarrow> label list" where
  "match_columns measure_df identifier_col =
     unique (filter (\<lambda>c. c \<noteq> identifier_col \<and> c \<noteq> VALUE_COLUMN) (columns measure_df))"

definition difference ::
  "real frame \<Rightarrow> label \<Rightarrow> real cell option \<Rightarrow> real cell option \<Rightarrow> error + real frame" where
  "difference measure_df identifier_col minuend_id subtrahend_id =
     bind_e (difference_operands measure_df identifier_col minuend_id subtrahend_id)
       (\<lambda>(minuend, subtrahend).
     let index_columns = match_columns measure_df identifier_col in
     bind_e (pd_set_index minuend index_columns) (\<lambda>minuend.
     bind_e (pd_set_index subtrahend index_columns) (\<lambda>subtrahend.
     bind_e (if minuend_id = None then pd_set_index_append minuend identifier_col
             else Inr minuend) (\<lambda>minuend.
     bind_e (if minuend_id = None then Inr subtrahend
             else pd_set_index_append subtrahend identifier_col) (\<lambda>subtrahend.
     bind_e (pd_select_columns minuend [VALUE_COLUMN]) (\<lambda>minuend_value.
     bind_e (pd_select_columns subtrahend [VALUE_COLUMN]) (\<lambda>subtrahend_value.
     bind_e (pd_arith sub_cell id minuend_value subtrahend_value) (\<lambda>difference0.
     bind_e (pd_reset_index difference0) (\<lambda>difference1.
     bind_e (get_loc difference1 identifier_col) (\<lambda>loc.
       case (minuend_id, subtrahend_id) of
         (Some m, _) \<Rightarrow> insert_column difference1 (loc + 1) (PStr ''subtracted_from'') m
       | (None, Some s) \<Rightarrow> insert_column difference1 (loc + 1) (PStr ''subtracted_value'') s
       | (None, None) \<Rightarrow> Inl (ValueError No_id_specified)))))))))))"


section \<open>Totals and repeated marginalization\<close>



section \<open>The rows of a difference, by key\<close>

text \<open>\<^verbatim>\<open>-x\<close> on a cell of the value column.\<close>

definition neg_cell :: "real cell \<Rightarrow> real cell" where
  "neg_cell x = (case x of Num a \<Rightarrow> Num (- a) | _ \<Rightarrow> x)"

text \<open>
  The rows of \<open>measure_df\<close> whose identifier satisfies \<open>p\<close>, each as its key on the columns
  to match and its value.
\<close>

definition keyed_values ::
  "real frame \<Rightarrow> label \<Rightarrow> (real cell \<Rightarrow> bool) \<Rightarrow> (real cell list \<times> real cell) list" where
  "keyed_values measure_df identifier_col p =
     map (\<lambda>r. (map (cell_of (columns measure_df) (snd r)) (match_columns measure_df identifier_col),
                cell_of (columns measure_df) (snd r) VALUE_COLUMN))
       (filter (\<lambda>r. p (cell_of (columns measure_df) (snd r) identifier_col)) (rows measure_df))"

text \<open>
  The rows of a result \<open>d\<close> of \<^verbatim>\<open>difference\<close>, read the same way: the key on the columns to
  match of \<open>measure_df\<close>, and the value.
\<close>

definition matched_values ::
  "real frame \<Rightarrow> label \<Rightarrow> real frame \<Rightarrow> (real cell list \<times> real cell) list" where
  "matched_values measure_df identifier_col d =
     map (\<lambda>r. (map (cell_of (columns d) (snd r)) (match_columns measure_df identifier_col),
                cell_of (columns d) (snd r) VALUE_COLUMN))
       (rows d)"

text \<open>The values of the rows that have the key \<open>k\<close>, as a multiset.\<close>

definition values_at :: "(real cell list \<times> real cell) list \<Rightarrow> real cell list \<Rightarrow> real cell multiset" where
  "values_at kvs k = mset (map snd (filter (\<lambda>x. fst x = k) kvs))"

text \<open>
  What the subtraction of two keyed lists gives, after the alignment of \<open>pd_align\<close>, when
  the left index has the \<open>n\<close> columns to match and the right index has the identifier as
  one more level: an outer join for \<open>n > 1\<close>; for \<open>n = 1\<close> the rows of the right side,
  each with the left row of its key.
\<close>

definition opt_value :: "(real cell list \<times> real cell) option \<Rightarrow> real cell" where
  "opt_value x = (case x of None \<Rightarrow> NaN | Some y \<Rightarrow> snd y)"

definition aligned_differences ::
  "nat \<Rightarrow> (real cell list \<times> real cell) list \<Rightarrow> (real cell list \<times> real cell) list \<Rightarrow>
     (real cell list \<times> real cell) list" where
  "aligned_differences n X Y =
     (if n > 1 then
        map (\<lambda>(k, l, r). (k, sub_cell (opt_value l) (opt_value r))) (outer_join fst fst X Y)
      else
        map (\<lambda>y. (fst y, sub_cell (opt_value (find (\<lambda>x. fst x = fst y) X)) (snd y))) Y)"

section \<open>Example tables\<close>

text \<open>
  Deaths by draw, scenario and sex: the table on which the theorems below are tried.
\<close>

definition deaths :: "real frame" where
  "deaths =
     DataFrame [PStr ''input_draw'', PStr ''scenario'', PStr ''sex'', PStr ''measure'', PStr ''value'']
       [[Num 0, Cat ''baseline'', Cat ''female'', Cat ''deaths'', Num 5],
        [Num 0, Cat ''baseline'', Cat ''male'', Cat ''deaths'', Num 3],
        [Num 0, Cat ''treated'', Cat ''female'', Cat ''deaths'', Num 2],
        [Num 0, Cat ''treated'', Cat ''male'', Cat ''deaths'', Num 0]]"

text \<open>The deaths of the baseline scenario alone.\<close>

definition baseline_deaths :: "real frame" where
  "baseline_deaths =
     DataFrame [PStr ''input_draw'', PStr ''scenario'', PStr ''sex'', PStr ''value'']
       [[Num 0, Cat ''baseline'', Cat ''female'', Num 5],
        [Num 0, Cat ''baseline'', Cat ''male'', Num 3]]"

section \<open>Errors and their propagation\<close>

lemma bind_e_neq:
  "m \<noteq> Inl e \<Longrightarrow> (\<And>x. m = Inr x \<Longrightarrow> f x \<noteq> Inl e) \<Longrightarrow> bind_e m f \<noteq> Inl e"
  by (cases m) (auto simp: bind_e_def)

lemma bind_e_Inr_iff:
  "bind_e m f = Inr y \<longleftrightarrow> (\<exists>x. m = Inr x \<and> f x = Inr y)"
  by (cases m) (auto simp: bind_e_def)

lemma bind_e_Inl [simp]: "bind_e (Inl e) f = Inl e"
  by (simp add: bind_e_def)

lemma bind_e_Inr [simp]: "bind_e (Inr x) f = f x"
  by (simp add: bind_e_def)



lemma set_sort_labels [simp]: "set (sort_labels ls) = set ls"
proof -
  have a: "list_all is_str ls \<Longrightarrow> PStr ` str_of ` set ls = set ls"
    by (force simp: list_all_iff is_str_def str_of_def image_iff split: label.splits)
  have b: "list_all is_tuple ls \<Longrightarrow> PTuple ` tuple_of ` set ls = set ls"
    by (force simp: list_all_iff is_tuple_def tuple_of_def image_iff split: label.splits)
  show ?thesis using a b by (auto simp: sort_labels_def simp del: image_image)
qed

lemma set_unique [simp]: "set (unique xs) = set xs"
  by (simp add: unique_def)

lemma distinct_unique [simp]: "distinct (unique xs)"
  by (simp add: unique_def)

lemma set_index_difference [simp]:
  "set (index_difference cols other) = set cols - set other"
  by (auto simp: index_difference_def)

lemma bind_e_Inl_iff:
  "bind_e m f = Inl e \<longleftrightarrow> m = Inl e \<or> (\<exists>x. m = Inr x \<and> f x = Inl e)"
  by (cases m) (auto simp: bind_e_def)

lemma key_error_errors:
  "key_error df keys = Some e \<Longrightarrow> e = ValueError Ambiguous_label \<or> e = KeyError"
  by (induction keys) (auto split: if_splits)

lemma pd_groupby_sum_errors:
  "pd_groupby_sum df keys vals = Inl e \<Longrightarrow>
     e = ValueError Ambiguous_label \<or> e = KeyError \<or> e = ValueError No_group_keys \<or> e = TypeError"
  by (auto simp: pd_groupby_sum_def Let_def split: option.splits if_splits dest: key_error_errors)

lemma pd_reset_index_with_errors:
  "pd_reset_index_with pos df = Inl e \<Longrightarrow> e = ValueError Cannot_insert"
  by (auto simp: pd_reset_index_with_def Let_def split: if_splits)

lemma pd_reset_index_errors:
  "pd_reset_index df = Inl e \<Longrightarrow> e = ValueError Cannot_insert"
  by (simp add: pd_reset_index_def pd_reset_index_with_errors)

lemma ensure_columns_not_levels_errors:
  "ensure_columns_not_levels df cl = Inl e \<Longrightarrow> e = ValueError Cannot_insert"
  by (auto simp: ensure_columns_not_levels_def pd_reset_index_errors split: if_splits)

lemma pd_align_errors:
  "pd_align L R = Inl e \<Longrightarrow> e = ValueError No_overlapping_names \<or> e = NotImplementedError"
  by (auto simp: pd_align_def Let_def split: if_splits)

lemma pd_arith_errors:
  "pd_arith f emb L R = Inl e \<Longrightarrow>
     e = TypeError \<or> e = ValueError No_overlapping_names \<or> e = NotImplementedError"
  by (auto simp: pd_arith_def bind_e_def split: if_splits sum.splits prod.splits dest: pd_align_errors)

lemma stratify_errors:
  "stratify ic df st vc ri = Inl e \<Longrightarrow>
     e = ValueError Ambiguous_label \<or> e = KeyError \<or> e = ValueError No_group_keys \<or> e = TypeError
     \<or> e = ValueError Cannot_insert"
  by (auto simp: stratify_def Let_def bind_e_def split: sum.splits if_splits
      dest: pd_groupby_sum_errors pd_reset_index_errors)

lemma joined_measures_errors:
  "joined_measures df ms = Inl e \<Longrightarrow> e = KeyError \<or> e = TypeError"
  by (auto simp: joined_measures_def Let_def split: if_splits)







section \<open>Column-name arguments are wrapped, not unpacked\<close>

lemma ensure_iterable_Scalar:
  "x \<noteq> PNone \<Longrightarrow> ensure_iterable (Scalar x) df dflt = ensure_iterable (PyList [x]) df dflt"
  by (simp add: ensure_iterable_def)

text \<open>
  Claim C10. A list or an Index is taken as the collection of its names. Every other
  argument that is not \<^verbatim>\<open>None\<close>, a tuple of names included, is one column name and is
  wrapped in a list of length one: \<^verbatim>\<open>value\<close>, \<^verbatim>\<open>marginalize\<close>, \<^verbatim>\<open>stratify\<close> and \<^verbatim>\<open>ratio\<close> do
  with it what they do with that list.
\<close>

theorem ensure_iterable_wraps_single_name:
  "ensure_iterable (PyList xs) df dflt = xs \<and>
   ensure_iterable (PdIndex xs) df dflt = xs \<and>
   (x \<noteq> PNone \<longrightarrow>
      ensure_iterable (Scalar x) df dflt = [x] \<and>
      value_df ic t (Scalar x) ex vc = value_df ic t (PyList [x]) ex vc \<and>
      value_df ic t inc (Scalar x) vc = value_df ic t inc (PyList [x]) vc \<and>
      value_df ic t inc ex (Scalar x) = value_df ic t inc ex (PyList [x]) \<and>
      marginalize t (Scalar x) vc r = marginalize t (PyList [x]) vc r \<and>
      marginalize t mc (Scalar x) r = marginalize t mc (PyList [x]) r \<and>
      stratify ic t (Scalar x) vc r = stratify ic t (PyList [x]) vc r \<and>
      stratify ic t st (Scalar x) r = stratify ic t st (PyList [x]) r \<and>
      ratio ic t u (Scalar x) m nb db vc ms dn ri r = ratio ic t u (PyList [x]) m nb db vc ms dn ri r \<and>
      ratio ic t u st m (Scalar x) db vc ms dn ri r = ratio ic t u st m (PyList [x]) db vc ms dn ri r \<and>
      ratio ic t u st m nb (Scalar x) vc ms dn ri r = ratio ic t u st m nb (PyList [x]) vc ms dn ri r \<and>
      ratio ic t u st m nb db (Scalar x) ms dn ri r = ratio ic t u st m nb db (PyList [x]) ms dn ri r)"
proof -
  have base: "ensure_iterable (PyList xs) df dflt = xs" "ensure_iterable (PdIndex xs) df dflt = xs"
    by (simp_all add: ensure_iterable_def)
  have wrap: "x \<noteq> PNone \<Longrightarrow> ensure_iterable (Scalar x) df dflt = [x]"
    by (simp add: ensure_iterable_def)
  have v: "x \<noteq> PNone \<Longrightarrow>
      value_df ic t (Scalar x) ex vc = value_df ic t (PyList [x]) ex vc \<and>
      value_df ic t inc (Scalar x) vc = value_df ic t inc (PyList [x]) vc \<and>
      value_df ic t inc ex (Scalar x) = value_df ic t inc ex (PyList [x])"
    by (simp add: value_df_def ensure_iterable_Scalar Let_def)
  have m: "x \<noteq> PNone \<Longrightarrow>
      marginalize t (Scalar x) vc r = marginalize t (PyList [x]) vc r \<and>
      marginalize t mc (Scalar x) r = marginalize t mc (PyList [x]) r"
    by (simp add: marginalize_def ensure_iterable_Scalar Let_def)
  have s: "x \<noteq> PNone \<Longrightarrow>
      stratify ic t (Scalar x) vc r = stratify ic t (PyList [x]) vc r \<and>
      stratify ic t st (Scalar x) r = stratify ic t st (PyList [x]) r"
    by (simp add: stratify_def ensure_iterable_Scalar Let_def)
  have r1: "x \<noteq> PNone \<Longrightarrow>
      ratio ic t u (Scalar x) m nb db vc ms dn ri r = ratio ic t u (PyList [x]) m nb db vc ms dn ri r"
    by (simp add: ratio_def ensure_iterable_Scalar Let_def cong: if_cong)
  have r2: "x \<noteq> PNone \<Longrightarrow>
      ratio ic t u st m (Scalar x) db vc ms dn ri r = ratio ic t u st m (PyList [x]) db vc ms dn ri r"
    by (simp add: ratio_def ensure_iterable_Scalar Let_def cong: if_cong)
  have r3: "x \<noteq> PNone \<Longrightarrow>
      ratio ic t u st m nb (Scalar x) vc ms dn ri r = ratio ic t u st m nb (PyList [x]) vc ms dn ri r"
    by (simp add: ratio_def ensure_iterable_Scalar Let_def cong: if_cong)
  have r4: "x \<noteq> PNone \<Longrightarrow>
      ratio ic t u st m nb db (Scalar x) ms dn ri r = ratio ic t u st m nb db (PyList [x]) ms dn ri r"
    by (simp add: ratio_def stratify_def ensure_iterable_Scalar Let_def cong: if_cong)
  show ?thesis using base wrap v m s r1 r2 r3 r4 by blast
qed

theorem ensure_iterable_wraps_single_name_witness:
  "PTuple [''sex'', ''age''] \<noteq> PNone \<and>
   ensure_iterable (Scalar (PTuple [''sex'', ''age''])) deaths (Scalar PNone)
     = [PTuple [''sex'', ''age'']] \<and>
   stratify default_INDEX_COLUMNS deaths (Scalar (PTuple [''sex'', ''age''])) (Scalar VALUE_COLUMN) True
     = stratify default_INDEX_COLUMNS deaths (PyList [PTuple [''sex'', ''age'']]) (Scalar VALUE_COLUMN) True"
  using ensure_iterable_wraps_single_name
    [where x = "PTuple [''sex'', ''age'']" and df = deaths and dflt = "Scalar PNone"
       and ic = default_INDEX_COLUMNS and t = deaths and vc = "Scalar VALUE_COLUMN" and r = True]
  by simp

section \<open>\<^verbatim>\<open>value\<close>: the index and the columns of the result\<close>

lemma columns_pd_select_columns:
  "pd_select_columns df cols = Inr r \<Longrightarrow> columns r = cols \<and> index_names r = index_names df"
  by (auto simp: pd_select_columns_def split: if_splits)

lemma pd_set_index_Inr:
  "pd_set_index df keys = Inr r \<Longrightarrow> index_names r = keys \<and> columns r = filter (\<lambda>c. c \<notin> set keys) (columns df)"
  by (auto simp: pd_set_index_def split: if_splits)

text \<open>
  Claim C6. \<^verbatim>\<open>value\<close> raises the \<^verbatim>\<open>ValueError\<close> of its own check exactly when both
  \<^verbatim>\<open>include\<close> and \<^verbatim>\<open>exclude\<close> are given. When it returns, the index is the one of the mode
  chosen: the columns that are neither value columns nor excluded when \<^verbatim>\<open>include\<close> is
  absent, and the included columns followed by \<^verbatim>\<open>INDEX_COLUMNS\<close> otherwise.
\<close>

theorem value_raises_iff_include_and_exclude:
  "(value_df ic df inc ex vc = Inl (ValueError Include_and_exclude)
      \<longleftrightarrow> inc \<noteq> Scalar PNone \<and> ex \<noteq> Scalar PNone) \<and>
   (\<forall>r. value_df ic df inc ex vc = Inr r \<longrightarrow>
      index_names r =
        (if inc = Scalar PNone
         then index_difference (columns df)
                (ensure_iterable vc df (Scalar PNone) @ ensure_iterable ex df (PyList []))
         else ensure_iterable inc df (Scalar PNone) @ ic))"
  by (auto simp: value_df_def Let_def pd_select_columns_def pd_set_index_def
      split: sum.splits if_splits)

theorem value_raises_iff_include_and_exclude_witness:
  "value_df default_INDEX_COLUMNS deaths (Scalar (PStr ''sex'')) (Scalar (PStr ''measure''))
      (Scalar VALUE_COLUMN) = Inl (ValueError Include_and_exclude) \<and>
   value_df default_INDEX_COLUMNS deaths (Scalar (PStr ''sex'')) (Scalar PNone) (Scalar VALUE_COLUMN)
     = Inr \<lparr>index_names = [PStr ''sex'', PStr ''input_draw'', PStr ''scenario''],
            columns = [PStr ''value''],
            rows = [([Cat ''female'', Num 0, Cat ''baseline''], [Num 5]),
                    ([Cat ''male'', Num 0, Cat ''baseline''], [Num 3]),
                    ([Cat ''female'', Num 0, Cat ''treated''], [Num 2]),
                    ([Cat ''male'', Num 0, Cat ''treated''], [Num 0])]\<rparr> \<and>
   [PStr ''sex'', PStr ''input_draw'', PStr ''scenario'']
     = ensure_iterable (Scalar (PStr ''sex'')) deaths (Scalar PNone) @ default_INDEX_COLUMNS"
proof -
  have e: "value_df default_INDEX_COLUMNS deaths (Scalar (PStr ''sex'')) (Scalar PNone)
      (Scalar VALUE_COLUMN)
     = Inr \<lparr>index_names = [PStr ''sex'', PStr ''input_draw'', PStr ''scenario''],
            columns = [PStr ''value''],
            rows = [([Cat ''female'', Num 0, Cat ''baseline''], [Num 5]),
                    ([Cat ''male'', Num 0, Cat ''baseline''], [Num 3]),
                    ([Cat ''female'', Num 0, Cat ''treated''], [Num 2]),
                    ([Cat ''male'', Num 0, Cat ''treated''], [Num 0])]\<rparr>"
    by code_simp
  have "value_df default_INDEX_COLUMNS deaths (Scalar (PStr ''sex'')) (Scalar (PStr ''measure''))
      (Scalar VALUE_COLUMN) = Inl (ValueError Include_and_exclude)"
    using value_raises_iff_include_and_exclude
      [of default_INDEX_COLUMNS deaths "Scalar (PStr ''sex'')" "Scalar (PStr ''measure'')"
         "Scalar VALUE_COLUMN"]
    by simp
  moreover have "[PStr ''sex'', PStr ''input_draw'', PStr ''scenario'']
     = ensure_iterable (Scalar (PStr ''sex'')) deaths (Scalar PNone) @ default_INDEX_COLUMNS"
    using e value_raises_iff_include_and_exclude
      [of default_INDEX_COLUMNS deaths "Scalar (PStr ''sex'')" "Scalar PNone" "Scalar VALUE_COLUMN"]
    by simp
  ultimately show ?thesis using e by simp
qed

text \<open>
  Claim C9, as it stands, fails when a value column is excluded: \<^verbatim>\<open>value(df, exclude='value')\<close>
  keeps the column \<^verbatim>\<open>value\<close>, because the value columns are selected last.
\<close>

theorem value_exclude_value_column_counterexample:
  "VALUE_COLUMN \<in> set (ensure_iterable (Scalar VALUE_COLUMN) deaths (PyList [])) \<and>
   value_df default_INDEX_COLUMNS deaths (Scalar PNone) (Scalar VALUE_COLUMN) (Scalar VALUE_COLUMN)
     = Inr \<lparr>index_names = [PStr ''input_draw'', PStr ''measure'', PStr ''scenario'', PStr ''sex''],
            columns = [PStr ''value''],
            rows = [([Num 0, Cat ''deaths'', Cat ''baseline'', Cat ''female''], [Num 5]),
                    ([Num 0, Cat ''deaths'', Cat ''baseline'', Cat ''male''], [Num 3]),
                    ([Num 0, Cat ''deaths'', Cat ''treated'', Cat ''female''], [Num 2]),
                    ([Num 0, Cat ''deaths'', Cat ''treated'', Cat ''male''], [Num 0])]\<rparr> \<and>
   VALUE_COLUMN \<in> set [PStr ''value'']"
  by code_simp

text \<open>
  Claim C9, amended. When \<^verbatim>\<open>value(df, exclude=...)\<close> returns, its index is made of the
  columns of the table that are neither value columns nor excluded, its columns are the
  value columns, and an excluded column that is not a value column is neither an index
  level nor a column of the result.
\<close>

theorem value_exclude_drops_columns:
  assumes "value_df ic df (Scalar PNone) ex vc = Inr r"
  shows "set (index_names r) =
           set (columns df) - set (ensure_iterable vc df (Scalar PNone))
             - set (ensure_iterable ex df (PyList []))
         \<and> columns r = ensure_iterable vc df (Scalar PNone)
         \<and> (\<forall>c \<in> set (ensure_iterable ex df (PyList [])).
              c \<notin> set (index_names r)
              \<and> (c \<notin> set (ensure_iterable vc df (Scalar PNone)) \<longrightarrow> c \<notin> set (columns r)))"
  using assms
  by (auto simp: value_df_def Let_def bind_e_def split: sum.splits
      dest!: columns_pd_select_columns pd_set_index_Inr)

theorem value_exclude_drops_columns_witness:
  "value_df default_INDEX_COLUMNS deaths (Scalar PNone) (Scalar (PStr ''sex'')) (Scalar VALUE_COLUMN)
     = Inr \<lparr>index_names = [PStr ''input_draw'', PStr ''measure'', PStr ''scenario''],
            columns = [PStr ''value''],
            rows = [([Num 0, Cat ''deaths'', Cat ''baseline''], [Num 5]),
                    ([Num 0, Cat ''deaths'', Cat ''baseline''], [Num 3]),
                    ([Num 0, Cat ''deaths'', Cat ''treated''], [Num 2]),
                    ([Num 0, Cat ''deaths'', Cat ''treated''], [Num 0])]\<rparr> \<and>
   PStr ''sex'' \<in> set (ensure_iterable (Scalar (PStr ''sex'')) deaths (PyList [])) \<and>
   PStr ''sex'' \<notin> set (ensure_iterable (Scalar VALUE_COLUMN) deaths (Scalar PNone)) \<and>
   PStr ''sex'' \<notin> set [PStr ''input_draw'', PStr ''measure'', PStr ''scenario''] \<and>
   PStr ''sex'' \<notin> set [PStr ''value'']"
proof -
  have e: "value_df default_INDEX_COLUMNS deaths (Scalar PNone) (Scalar (PStr ''sex''))
      (Scalar VALUE_COLUMN)
     = Inr \<lparr>index_names = [PStr ''input_draw'', PStr ''measure'', PStr ''scenario''],
            columns = [PStr ''value''],
            rows = [([Num 0, Cat ''deaths'', Cat ''baseline''], [Num 5]),
                    ([Num 0, Cat ''deaths'', Cat ''baseline''], [Num 3]),
                    ([Num 0, Cat ''deaths'', Cat ''treated''], [Num 2]),
                    ([Num 0, Cat ''deaths'', Cat ''treated''], [Num 0])]\<rparr>"
    by code_simp
  show ?thesis
    using e value_exclude_drops_columns [OF e]
    by (simp add: ensure_iterable_def VALUE_COLUMN_def)
qed

section \<open>The checks of \<^verbatim>\<open>ratio\<close> and \<^verbatim>\<open>difference\<close>\<close>

lemma ensure_iterable_frame:
  "ensure_iterable a (x::'a frame) dflt = ensure_iterable a (y::'b frame) dflt"
  by (cases a; cases dflt) (auto simp: ensure_iterable_def)

lemma ratio_not_broadcast_error:
  assumes "set (ensure_iterable nb n (PyList [])) \<inter> set (ensure_iterable db d (PyList [])) = {}"
  shows "ratio ic n d st m nb db vc ms dn ri r \<noteq> Inl (ValueError Broadcast_not_disjoint)"
proof -
  define NB where "NB = ensure_iterable nb n (PyList [])"
  define DB where "DB = ensure_iterable db d (PyList [])"
  have nb: "\<And>x::real frame. ensure_iterable nb x (PyList []) = NB"
    unfolding NB_def by (rule ensure_iterable_frame)
  have db: "\<And>x::real frame. ensure_iterable db x (PyList []) = DB"
    unfolding DB_def by (rule ensure_iterable_frame)
  have dis: "set NB \<inter> set DB = {}"
    using assms by (simp add: NB_def DB_def)
  show ?thesis
    unfolding ratio_def Let_def nb db
    by (auto simp: bind_e_Inl_iff dis split: if_splits
        dest: ensure_columns_not_levels_errors joined_measures_errors stratify_errors
          pd_arith_errors pd_reset_index_with_errors)
qed

lemma ratio_broadcast_error:
  assumes "set (ensure_iterable nb n (PyList [])) \<inter> set (ensure_iterable db d (PyList [])) \<noteq> {}"
  shows "ratio ic n d st m nb db vc ms dn ri r = Inl (ValueError Broadcast_not_disjoint)
       \<or> ratio ic n d st m nb db vc ms dn ri r = Inl (ValueError Cannot_insert)"
proof -
  define NB where "NB = ensure_iterable nb n (PyList [])"
  define DB where "DB = ensure_iterable db d (PyList [])"
  have nb: "\<And>x::real frame. ensure_iterable nb x (PyList []) = NB"
    unfolding NB_def by (rule ensure_iterable_frame)
  have db: "\<And>x::real frame. ensure_iterable db x (PyList []) = DB"
    unfolding DB_def by (rule ensure_iterable_frame)
  have dis: "set NB \<inter> set DB \<noteq> {}"
    using assms by (simp add: NB_def DB_def)
  show ?thesis
    unfolding ratio_def Let_def nb db
    by (cases "ensure_columns_not_levels n []"; cases "ensure_columns_not_levels d []")
      (auto simp: dis dest: ensure_columns_not_levels_errors)
qed

text \<open>
  Claim C7. The \<^verbatim>\<open>ValueError\<close> of the disjointness check is raised only when the normalized
  broadcast lists share a name. When they do, \<^verbatim>\<open>ratio\<close> raises a \<^verbatim>\<open>ValueError\<close>: that of the
  check, unless resetting a MultiIndex of an input has failed before with a \<^verbatim>\<open>ValueError\<close>
  of its own; for inputs with a plain index it is that of the check.
\<close>

theorem ratio_raises_iff_broadcast_overlap:
  "(ratio ic n d st m nb db vc ms dn ri r = Inl (ValueError Broadcast_not_disjoint)
      \<longrightarrow> set (ensure_iterable nb n (PyList [])) \<inter> set (ensure_iterable db d (PyList [])) \<noteq> {}) \<and>
   (set (ensure_iterable nb n (PyList [])) \<inter> set (ensure_iterable db d (PyList [])) \<noteq> {}
      \<longrightarrow> ratio ic n d st m nb db vc ms dn ri r = Inl (ValueError Broadcast_not_disjoint)
        \<or> ratio ic n d st m nb db vc ms dn ri r = Inl (ValueError Cannot_insert)) \<and>
   (set (ensure_iterable nb n (PyList [])) \<inter> set (ensure_iterable db d (PyList [])) \<noteq> {}
      \<and> length (index_names n) \<le> 1 \<and> length (index_names d) \<le> 1
      \<longrightarrow> ratio ic n d st m nb db vc ms dn ri r = Inl (ValueError Broadcast_not_disjoint))"
proof -
  have "ratio ic n d st m nb db vc ms dn ri r = Inl (ValueError Broadcast_not_disjoint)"
    if "set (ensure_iterable nb n (PyList [])) \<inter> set (ensure_iterable db d (PyList [])) \<noteq> {}"
      and "length (index_names n) \<le> 1" and "length (index_names d) \<le> 1"
  proof -
    have "ensure_columns_not_levels n [] = Inr n" "ensure_columns_not_levels d [] = Inr d"
      using that by (auto simp: ensure_columns_not_levels_def)
    then show ?thesis
      using that(1) by (simp add: ratio_def Let_def)
  qed
  then show ?thesis
    using ratio_not_broadcast_error[of nb n db d ic st m vc ms dn ri r]
      ratio_broadcast_error[of nb n db d ic st m vc ms dn ri r]
    by blast
qed

theorem ratio_raises_iff_broadcast_overlap_witness:
  "set (ensure_iterable (Scalar (PStr ''sex'')) deaths (PyList []))
     \<inter> set (ensure_iterable (PyList [PStr ''measure'', PStr ''sex'']) deaths (PyList [])) \<noteq> {} \<and>
   length (index_names deaths) \<le> 1 \<and>
   ratio default_INDEX_COLUMNS deaths deaths (PyList []) 1 (Scalar (PStr ''sex''))
     (PyList [PStr ''measure'', PStr ''sex'']) (Scalar VALUE_COLUMN) MEASURE_COLUMN False None True
     = Inl (ValueError Broadcast_not_disjoint)"
  using ratio_raises_iff_broadcast_overlap
    [of default_INDEX_COLUMNS deaths deaths "PyList []" 1 "Scalar (PStr ''sex'')"
       "PyList [PStr ''measure'', PStr ''sex'']" "Scalar VALUE_COLUMN" MEASURE_COLUMN False None True]
  by (simp add: ensure_iterable_def deaths_def DataFrame_def)



section \<open>Cells and keys\<close>

lemma index_of_less: "c \<in> set xs \<Longrightarrow> index_of xs c < length xs"
  by (induction xs) auto

lemma nth_index_of: "c \<in> set xs \<Longrightarrow> xs ! index_of xs c = c"
  by (induction xs) auto

lemma index_of_append:
  "index_of (xs @ ys) c = (if c \<in> set xs then index_of xs c else length xs + index_of ys c)"
  by (induction xs) auto

lemma cell_of_map: "c \<in> set ns \<Longrightarrow> cell_of ns (map f ns) c = f c"
  by (simp add: cell_of_def Let_def index_of_less nth_index_of)

lemma cell_of_append_left:
  "c \<in> set ns \<Longrightarrow> length k = length ns \<Longrightarrow> cell_of (ns @ ms) (k @ x) c = cell_of ns k c"
  using index_of_less [of c ns]
  by (simp add: cell_of_def Let_def index_of_append nth_append)

lemma cell_of_append_right:
  "c \<notin> set ns \<Longrightarrow> length k = length ns \<Longrightarrow> cell_of (ns @ ms) (k @ x) c = cell_of ms x c"
  by (simp add: cell_of_def Let_def index_of_append nth_append)

lemma inj_cell_rank: "inj cell_rank"
  by (auto simp: inj_on_def cell_rank_def split: cell.splits)

lemma set_sort_keys [simp]: "set (sort_keys ks) = set ks"
  by (simp add: sort_keys_def)

lemma distinct_sort_keys [simp]: "distinct (sort_keys ks)"
  by (simp add: sort_keys_def)

lemma sort_keys_cong:
  assumes "set xs = set ys"
  shows "sort_keys xs = sort_keys ys"
proof -
  let ?f = "map cell_rank"
  have inj: "inj ?f" using inj_cell_rank by simp
  have "map ?f (sort_keys xs) = map ?f (sort_keys ys)"
  proof (rule sorted_distinct_set_unique)
    show "sorted (map ?f (sort_keys xs))" "sorted (map ?f (sort_keys ys))"
      by (simp_all add: sort_keys_def)
    show "distinct (map ?f (sort_keys xs))" "distinct (map ?f (sort_keys ys))"
      using inj by (simp_all add: distinct_map inj_on_def inj_def)
    show "set (map ?f (sort_keys xs)) = set (map ?f (sort_keys ys))"
      using assms by simp
  qed
  then show ?thesis using inj by (simp add: inj_map_eq_map)
qed

lemma sum_list_delta:
  fixes c :: "'a::comm_monoid_add"
  shows "distinct xs \<Longrightarrow> sum_list (map (\<lambda>k. if a = k then c else 0) xs) = (if a \<in> set xs then c else 0)"
  by (induction xs) auto

text \<open>Summing group by group is summing all at once.\<close>

lemma sum_list_regroup:
  fixes w :: "'r \<Rightarrow> real"
  assumes "distinct ks" and "f ` set rs \<subseteq> set ks"
  shows "sum_list (map (\<lambda>k. sum_list (map w (filter (\<lambda>r. f r = k) rs))) (filter P ks))
       = sum_list (map w (filter (\<lambda>r. P (f r)) rs))"
  using assms(2)
proof (induction rs)
  case Nil
  then show ?case by simp
next
  case (Cons r rs)
  have d: "distinct (filter P ks)" using assms(1) by simp
  have split: "sum_list (map (\<lambda>k. sum_list (map w (filter (\<lambda>x. f x = k) (r # rs)))) (filter P ks))
      = sum_list (map (\<lambda>k. if f r = k then w r else 0) (filter P ks))
        + sum_list (map (\<lambda>k. sum_list (map w (filter (\<lambda>x. f x = k) rs))) (filter P ks))"
  proof -
    have "map (\<lambda>k. sum_list (map w (filter (\<lambda>x. f x = k) (r # rs)))) (filter P ks)
        = map (\<lambda>k. (if f r = k then w r else 0) + sum_list (map w (filter (\<lambda>x. f x = k) rs)))
            (filter P ks)"
      by (rule map_cong) auto
    then show ?thesis by (simp only: sum_list_addf)
  qed
  have "sum_list (map (\<lambda>k. if f r = k then w r else 0) (filter P ks)) = (if P (f r) then w r else 0)"
    using Cons.prems by (simp add: sum_list_delta [OF d])
  with split Cons show ?case by simp
qed

section \<open>Grouping twice\<close>

lemma group_sums_map:
  "group_sums key cell vals (map g xs) = group_sums (\<lambda>x. key (g x)) (\<lambda>x. cell (g x)) vals xs"
  by (simp add: group_sums_def Let_def filter_map comp_def)

lemma group_sums_cong:
  assumes "\<And>r. r \<in> set rs \<Longrightarrow> key r = key' r"
    and "\<And>r v. r \<in> set rs \<Longrightarrow> v \<in> set vals \<Longrightarrow> num_of (cell r v) = num_of (cell' r v)"
  shows "group_sums key cell vals rs = group_sums key' cell' vals rs"
proof -
  have f: "filter (\<lambda>r. NaN \<notin> set (key r)) rs = filter (\<lambda>r. NaN \<notin> set (key' r)) rs"
    using assms(1) by (auto intro: filter_cong)
  let ?rs = "filter (\<lambda>r. NaN \<notin> set (key' r)) rs"
  have m: "map key ?rs = map key' ?rs"
    using assms(1) by (auto intro: map_cong)
  have g: "\<And>k. filter (\<lambda>r. key r = k) ?rs = filter (\<lambda>r. key' r = k) ?rs"
    using assms(1) by (auto intro: filter_cong)
  have s: "\<And>k v. v \<in> set vals \<Longrightarrow>
      sum_list (map (\<lambda>r. num_of (cell r v)) (filter (\<lambda>r. key' r = k) ?rs))
      = sum_list (map (\<lambda>r. num_of (cell' r v)) (filter (\<lambda>r. key' r = k) ?rs))"
    using assms(2) by (auto intro!: arg_cong [where f = sum_list] map_cong)
  show ?thesis
    unfolding group_sums_def Let_def f m g
    by (auto intro!: map_cong simp: s simp del: filter_filter)
qed

lemma group_sums_keys_no_NaN:
  "(k, s) \<in> set (group_sums key cell vals rs) \<Longrightarrow> NaN \<notin> set k \<and> length s = length vals"
  by (auto simp: group_sums_def Let_def)

lemma group_sums_twice:
  assumes same: "\<And>r. r \<in> set rs \<Longrightarrow> NaN \<in> set (h (a r)) \<longleftrightarrow> NaN \<in> set (a r)"
  shows "group_sums (\<lambda>(k, s). h k) (\<lambda>(k, s). cell_of vals s) vals (group_sums a w vals rs)
       = group_sums (\<lambda>r. h (a r)) w vals rs"
proof -
  let ?rs = "filter (\<lambda>r. NaN \<notin> set (a r)) rs"
  let ?KS = "sort_keys (map a ?rs)"
  let ?S = "\<lambda>k v. sum_list (map (\<lambda>r. num_of (w r v)) (filter (\<lambda>r. a r = k) ?rs))"
  let ?G = "map (\<lambda>k. (k, map (\<lambda>v. Num (?S k v)) vals)) ?KS"
  have G: "group_sums a w vals rs = ?G"
    by (simp add: group_sums_def Let_def)
  have rs2: "filter (\<lambda>r. NaN \<notin> set (h (a r))) rs = ?rs"
    using same by (auto intro: filter_cong)
  have keep: "filter (\<lambda>r. NaN \<notin> set (case r of (k, s) \<Rightarrow> h k)) ?G = ?G"
  proof -
    have "\<And>k. k \<in> set ?KS \<Longrightarrow> NaN \<notin> set (h k)"
      using same by auto
    then show ?thesis by (auto simp: filter_id_conv)
  qed
  have keys: "sort_keys (map (\<lambda>r. case r of (k, s) \<Rightarrow> h k) ?G) = sort_keys (map (\<lambda>r. h (a r)) ?rs)"
    by (rule sort_keys_cong) (auto simp: image_iff)
  have sums: "sum_list (map (\<lambda>r. num_of ((case r of (k, s) \<Rightarrow> cell_of vals s) v))
                  (filter (\<lambda>r. (case r of (k, s) \<Rightarrow> h k) = k2) ?G))
      = sum_list (map (\<lambda>r. num_of (w r v)) (filter (\<lambda>r. h (a r) = k2) ?rs))"
    if "v \<in> set vals" for v k2
  proof -
    have "sum_list (map (\<lambda>r. num_of ((case r of (k, s) \<Rightarrow> cell_of vals s) v))
                  (filter (\<lambda>r. (case r of (k, s) \<Rightarrow> h k) = k2) ?G))
        = sum_list (map (\<lambda>k. ?S k v) (filter (\<lambda>k. h k = k2) ?KS))"
      using that by (simp add: filter_map comp_def cell_of_map num_of_def split_def)
    also have "\<dots> = sum_list (map (\<lambda>r. num_of (w r v)) (filter (\<lambda>r. h (a r) = k2) ?rs))"
      by (rule sum_list_regroup) auto
    finally show ?thesis .
  qed
  show ?thesis
    unfolding group_sums_def [of "\<lambda>(k, s). h k"] group_sums_def [of "\<lambda>r. h (a r)"] Let_def G keep
      keys rs2
    by (auto intro!: map_cong simp: sums simp del: filter_filter)
qed

lemma key_error_columns:
  "set ks \<subseteq> set (columns df) \<Longrightarrow>
     key_error df ks = (if \<exists>c\<in>set ks. is_level df c then Some (ValueError Ambiguous_label) else None)"
  by (induction ks) auto

lemma key_error_None:
  "(\<And>c. c \<in> set ks \<Longrightarrow> (c \<in> set (columns df)) \<noteq> is_level df c) \<Longrightarrow> key_error df ks = None"
  by (induction ks) auto

lemma group_key_columns:
  "set ks \<subseteq> set (columns df) \<Longrightarrow> group_key df ks r = map (cell_of (columns df) (snd r)) ks"
  by (auto simp: group_key_def key_cell_def)

lemma group_key_levels:
  "set ks \<inter> set (columns df) = {} \<Longrightarrow> group_key df ks r = map (cell_of (index_names df) (fst r)) ks"
  by (auto simp: group_key_def key_cell_def)

lemma pd_groupby_sum_columns:
  assumes "set ks \<subseteq> set (columns df)" and "ks \<noteq> []"
  shows "pd_groupby_sum df ks vals =
     (if \<exists>c\<in>set ks. is_level df c then Inl (ValueError Ambiguous_label)
      else if \<not> set vals \<subseteq> set (columns df) then Inl KeyError
      else if \<exists>r\<in>set (rows df). \<exists>v\<in>set vals. is_cat (cell_of (columns df) (snd r) v) then Inl TypeError
      else Inr \<lparr>index_names = ks, columns = vals,
             rows = group_sums (\<lambda>r. map (cell_of (columns df) (snd r)) ks)
                      (\<lambda>r. cell_of (columns df) (snd r)) vals (rows df)\<rparr>)"
proof -
  have "group_key df ks = (\<lambda>r. map (cell_of (columns df) (snd r)) ks)"
    using assms(1) by (auto simp: group_key_columns)
  then show ?thesis
    using assms
    by (auto simp: pd_groupby_sum_def key_error_columns list_ex_iff)
qed

lemma distinct_sort_labels: "distinct ls \<Longrightarrow> distinct (sort_labels ls)"
proof -
  have a: "inj_on str_of (set ls)" if "list_all is_str ls"
    using that by (auto simp: inj_on_def list_all_iff is_str_def str_of_def split: label.splits)
  have b: "inj_on tuple_of (set ls)" if "list_all is_tuple ls"
    using that by (auto simp: inj_on_def list_all_iff is_tuple_def tuple_of_def split: label.splits)
  assume "distinct ls"
  then show ?thesis
    using a b by (auto simp: sort_labels_def distinct_map inj_on_def)
qed

lemma distinct_index_difference [simp]: "distinct (index_difference cols other)"
  by (simp add: index_difference_def distinct_sort_labels)

lemma level_names_named:
  "PNone \<notin> set (index_names df) \<Longrightarrow> level_names df = index_names df"
proof -
  assume a: "PNone \<notin> set (index_names df)"
  have "map (\<lambda>(i, n). if n \<noteq> PNone then n
        else if length (index_names df) = 1 \<and> PStr ''index'' \<notin> set (columns df) then PStr ''index''
        else PStr (''level_'' @ string_of_nat i)) (enumerate 0 (index_names df))
      = map snd (enumerate 0 (index_names df))"
  proof (intro map_cong refl)
    fix p assume "p \<in> set (enumerate 0 (index_names df))"
    then have "fst p < length (index_names df)" and "index_names df ! fst p = snd p"
      by (auto simp: in_set_enumerate_eq)
    then have "snd p \<in> set (index_names df)"
      using nth_mem [of "fst p" "index_names df"] by simp
    with a have "snd p \<noteq> PNone" by auto
    then show "(case p of (i, n) \<Rightarrow> if n \<noteq> PNone then n
        else if length (index_names df) = 1 \<and> PStr ''index'' \<notin> set (columns df) then PStr ''index''
        else PStr (''level_'' @ string_of_nat i)) = snd p"
      by (cases p) simp
  qed
  then show ?thesis by (simp add: level_names_def)
qed

lemma map_snd_range_index [simp]: "map snd (range_index pos ds) = ds"
  by (simp add: range_index_def comp_def split_def)

lemma group_sums_snd:
  "group_sums (\<lambda>r. key (snd r)) (\<lambda>r. cell (snd r)) vals rs = group_sums key cell vals (map snd rs)"
  by (simp add: group_sums_map)

lemma group_sums_rows_shape:
  "(k, s) \<in> set (group_sums (\<lambda>r. map (f r) ks) w vals rs) \<Longrightarrow>
     length k = length ks \<and> NaN \<notin> set k \<and> s = map (\<lambda>v. Num (num_of (cell_of vals s v))) vals
     \<and> length s = length vals"
  by (auto simp: group_sums_def Let_def cell_of_map num_of_def)

lemma pd_reset_index_named:
  assumes "PNone \<notin> set (index_names g)" "distinct (index_names g)"
    "set (index_names g) \<inter> set (columns g) = {}"
  shows "pd_reset_index g =
     Inr \<lparr>index_names = [PNone], columns = index_names g @ columns g,
          rows = range_index rpos (map (\<lambda>(k, d). k @ d) (rows g))\<rparr>"
  using assms
  by (auto simp: pd_reset_index_def pd_reset_index_with_def level_names_named Let_def list_ex_iff)

text \<open>Grouping a grouped frame again, by keys among its own keys.\<close>

lemma pd_groupby_sum_again:
  assumes g: "g = \<lparr>index_names = K, columns = vals,
                   rows = group_sums (\<lambda>r. map (f r) K) w vals rs\<rparr>"
    and d: "d = g \<or> pd_reset_index g = Inr d"
    and K: "set S \<subseteq> set K" "S \<noteq> []" "PNone \<notin> set K" "distinct K" "set K \<inter> set vals = {}"
    and same: "\<And>r. r \<in> set rs \<Longrightarrow> NaN \<in> f r ` set S \<longleftrightarrow> NaN \<in> f r ` set K"
  shows "pd_groupby_sum d S vals =
     Inr \<lparr>index_names = S, columns = vals,
          rows = group_sums (\<lambda>r. map (f r) S) w vals rs\<rparr>"
proof -
  let ?G = "group_sums (\<lambda>r. map (f r) K) w vals rs"
  let ?h = "\<lambda>k. map (cell_of K k) S"
  have h: "?h (map (f r) K) = map (f r) S" for r
    using K(1) by (auto simp: cell_of_map)
  have twice: "group_sums (\<lambda>(k, s). ?h k) (\<lambda>(k, s). cell_of vals s) vals ?G
      = group_sums (\<lambda>r. map (f r) S) w vals rs"
  proof -
    have "group_sums (\<lambda>(k, s). ?h k) (\<lambda>(k, s). cell_of vals s) vals ?G
        = group_sums (\<lambda>r. ?h (map (f r) K)) w vals rs"
      by (rule group_sums_twice) (use same h in auto)
    then show ?thesis by (simp only: h)
  qed
  have Sv: "set S \<inter> set vals = {}" using K by auto
  have gs: "index_names g = K" "columns g = vals" "rows g = ?G"
    by (simp_all add: g)
  from d show ?thesis
  proof
    assume "d = g"
    have ke: "key_error g S = None"
      by (rule key_error_None) (use gs K Sv in \<open>auto simp: is_level_def\<close>)
    have gk: "group_key g S = (\<lambda>(k, s). ?h k)"
      using gs Sv by (auto simp: group_key_levels fun_eq_iff)
    have nocat: "\<not> is_cat (cell_of vals s v)" if "(k, s) \<in> set ?G" "v \<in> set vals" for k s v
      using that by (auto simp: group_sums_def Let_def cell_of_map is_cat_def)
    have "pd_groupby_sum g S vals =
       Inr \<lparr>index_names = S, columns = vals,
            rows = group_sums (\<lambda>(k, s). ?h k) (\<lambda>r. cell_of vals (snd r)) vals ?G\<rparr>"
      using K(2) nocat by (auto simp: pd_groupby_sum_def ke gk gs list_ex_iff)
    then show ?thesis using twice \<open>d = g\<close> by (simp add: split_def)
  next
    assume r: "pd_reset_index g = Inr d"
    have dd: "d = \<lparr>index_names = [PNone], columns = K @ vals,
          rows = range_index rpos (map (\<lambda>(k, d). k @ d) ?G)\<rparr>"
      using r pd_reset_index_named [of g] gs K by simp
    have sub: "set S \<subseteq> set (columns d)" using dd K by auto
    have nolev: "\<not> is_level d c" for c by (simp add: dd is_level_def)
    have cellv: "cell_of (K @ vals) (k @ s) v = cell_of vals s v"
      if "(k, s) \<in> set ?G" "v \<in> set vals" for k s v
      using that K group_sums_rows_shape [of k s f K w vals rs]
      by (intro cell_of_append_right) auto
    have cellk: "map (cell_of (K @ vals) (k @ s)) S = ?h k" if "(k, s) \<in> set ?G" for k s
      using that K group_sums_rows_shape [of k s f K w vals rs]
      by (auto simp: cell_of_append_left)
    have nocat: "\<not> is_cat (cell_of (K @ vals) (snd r) v)" if "r \<in> set (rows d)" "v \<in> set vals" for r v
    proof -
      from that(1) have "snd r \<in> set (map snd (rows d))" by force
      then obtain k s where ks: "(k, s) \<in> set ?G" "snd r = k @ s"
        by (auto simp: dd)
      then show ?thesis
        using cellv [OF ks(1) that(2)] group_sums_rows_shape [of k s f K w vals rs] that(2)
        by (metis (no_types, lifting) cell.simps(10) cell_of_map is_cat_def)
    qed
    have "pd_groupby_sum d S vals =
       Inr \<lparr>index_names = S, columns = vals,
            rows = group_sums (\<lambda>r. map (cell_of (K @ vals) (snd r)) S)
                     (\<lambda>r. cell_of (K @ vals) (snd r)) vals (rows d)\<rparr>"
      using pd_groupby_sum_columns [OF sub K(2), of vals] nolev nocat dd by auto
    also have "group_sums (\<lambda>r. map (cell_of (K @ vals) (snd r)) S)
                     (\<lambda>r. cell_of (K @ vals) (snd r)) vals (rows d)
        = group_sums (\<lambda>x. map (cell_of (K @ vals) x) S) (cell_of (K @ vals)) vals
            (map (\<lambda>(k, d). k @ d) ?G)"
      using group_sums_snd [of "\<lambda>x. map (cell_of (K @ vals) x) S" "cell_of (K @ vals)" vals "rows d"]
      by (simp add: dd)
    also have "\<dots> = group_sums (\<lambda>(k, s). map (cell_of (K @ vals) (k @ s)) S)
                        (\<lambda>(k, s). cell_of (K @ vals) (k @ s)) vals ?G"
      by (simp add: group_sums_map split_def)
    also have "\<dots> = group_sums (\<lambda>(k, s). ?h k) (\<lambda>(k, s). cell_of vals s) vals ?G"
      by (rule group_sums_cong) (auto simp: cellk cellv)
    finally show ?thesis using twice by simp
  qed
qed

section \<open>\<^verbatim>\<open>marginalize\<close> and then \<^verbatim>\<open>stratify\<close>\<close>

lemma ensure_columns_not_levels_flat:
  "length (index_names df) \<le> 1 \<Longrightarrow> index_name df \<notin> set cl \<Longrightarrow> ensure_columns_not_levels df cl = Inr df"
  by (simp add: ensure_columns_not_levels_def)

text \<open>
  Claim C2. Take a table with a plain index whose columns all have names, and let the
  columns that are neither marginalized nor value columns be exactly the strata together
  with \<^verbatim>\<open>INDEX_COLUMNS\<close>, at least one column in all. Then \<^verbatim>\<open>marginalize\<close> followed by
  \<^verbatim>\<open>stratify\<close> gives what \<^verbatim>\<open>stratify\<close> alone gives on the table: the same frame, or the same
  exception.
\<close>

theorem marginalize_then_stratify:
  assumes flat: "length (index_names df) \<le> 1"
      "index_name df \<notin> set (ensure_iterable marginalized_cols df (Scalar PNone))"
    and part: "set (ensure_iterable strata df (Scalar PNone) @ INDEX_COLUMNS) =
        set (columns df) - set (ensure_iterable marginalized_cols df (Scalar PNone))
          - set (ensure_iterable value_cols df (Scalar PNone))"
    and names: "PNone \<notin> set (columns df)"
      "ensure_iterable strata df (Scalar PNone) @ INDEX_COLUMNS \<noteq> []"
  shows "bind_e (marginalize df marginalized_cols value_cols reset_index)
           (\<lambda>summed. stratify INDEX_COLUMNS summed strata value_cols reset_index')
       = stratify INDEX_COLUMNS df strata value_cols reset_index'"
proof -
  define M where "M = ensure_iterable marginalized_cols df (Scalar PNone)"
  define vals where "vals = ensure_iterable value_cols df (Scalar PNone)"
  define st where "st = ensure_iterable strata df (Scalar PNone)"
  define S where "S = st @ INDEX_COLUMNS"
  define K where "K = index_difference (columns df) (M @ vals)"
  define post where "post = (\<lambda>s. if reset_index' then pd_reset_index s else Inr s)"
  have eiv: "\<And>x::real frame. ensure_iterable value_cols x (Scalar PNone) = vals"
    unfolding vals_def by (rule ensure_iterable_frame)
  have eis: "\<And>x::real frame. ensure_iterable strata x (Scalar PNone) = st"
    unfolding st_def by (rule ensure_iterable_frame)
  have eim: "\<And>x::real frame. ensure_iterable marginalized_cols x (Scalar PNone) = M"
    unfolding M_def by (rule ensure_iterable_frame)
  have flat2: "index_name df \<notin> set M"
    using flat(2) by (simp add: M_def)
  have setS: "set S = set (columns df) - set M - set vals"
    using part by (simp add: S_def st_def M_def vals_def)
  have setK: "set K = set S"
    using setS by (auto simp: K_def)
  have Sne: "S \<noteq> []" using names(2) by (simp add: S_def st_def)
  then have Kne: "K \<noteq> []" using setK by (metis set_empty)
  have subS: "set S \<subseteq> set (columns df)" and subK: "set K \<subseteq> set (columns df)"
    using setS setK by auto
  have strat: "stratify INDEX_COLUMNS x strata value_cols reset_index'
      = bind_e (pd_groupby_sum x S vals) post" for x
    by (simp add: stratify_def Let_def eiv eis S_def post_def)
  have marg: "marginalize df marginalized_cols value_cols reset_index
      = bind_e (pd_groupby_sum df K vals)
          (\<lambda>s. if reset_index then pd_reset_index s else Inr s)"
    using flat(1) flat2
    by (simp add: marginalize_def Let_def eim eiv K_def ensure_columns_not_levels_flat)
  let ?f = "\<lambda>r c. cell_of (columns df) (snd r) c"
  let ?w = "\<lambda>r. cell_of (columns df) (snd r)"
  let ?bad = "if \<exists>c\<in>set S. is_level df c then Some (ValueError Ambiguous_label)
      else if \<not> set vals \<subseteq> set (columns df) then Some KeyError
      else if \<exists>r\<in>set (rows df). \<exists>v\<in>set vals. is_cat (cell_of (columns df) (snd r) v)
        then Some TypeError
      else None"
  have gS: "pd_groupby_sum df S vals =
      (case ?bad of Some e \<Rightarrow> Inl e
       | None \<Rightarrow> Inr \<lparr>index_names = S, columns = vals,
                    rows = group_sums (\<lambda>r. map (?f r) S) ?w vals (rows df)\<rparr>)"
    by (simp add: pd_groupby_sum_columns [OF subS Sne])
  have gK: "pd_groupby_sum df K vals =
      (case ?bad of Some e \<Rightarrow> Inl e
       | None \<Rightarrow> Inr \<lparr>index_names = K, columns = vals,
                    rows = group_sums (\<lambda>r. map (?f r) K) ?w vals (rows df)\<rparr>)"
    by (simp add: pd_groupby_sum_columns [OF subK Kne] setK)
  show ?thesis
  proof (cases ?bad)
    case (Some e)
    then show ?thesis by (simp add: strat marg gS gK)
  next
    case None
    let ?g = "\<lparr>index_names = K, columns = vals,
                 rows = group_sums (\<lambda>r. map (?f r) K) ?w vals (rows df)\<rparr>"
    have Kprops: "PNone \<notin> set K" "distinct K" "set K \<inter> set vals = {}"
      using names(1) subK setK setS by (auto simp: K_def)
    have reset: "pd_reset_index ?g =
        Inr \<lparr>index_names = [PNone], columns = K @ vals,
             rows = range_index rpos (map (\<lambda>(k, d). k @ d) (rows ?g))\<rparr>"
      using pd_reset_index_named [of ?g] Kprops by simp
    define d where "d = (if reset_index
        then \<lparr>index_names = [PNone], columns = K @ vals,
               rows = range_index rpos (map (\<lambda>(k, d). k @ d) (rows ?g))\<rparr>
        else ?g)"
    have mres: "marginalize df marginalized_cols value_cols reset_index
        = (if reset_index then pd_reset_index ?g else Inr ?g)"
      using None by (simp add: marg gK)
    have d: "marginalize df marginalized_cols value_cols reset_index = Inr d"
      unfolding mres d_def using reset by simp
    have dg: "d = ?g \<or> pd_reset_index ?g = Inr d"
      unfolding d_def using reset by simp
    have "pd_groupby_sum d S vals =
        Inr \<lparr>index_names = S, columns = vals,
             rows = group_sums (\<lambda>r. map (?f r) S) ?w vals (rows df)\<rparr>"
      using dg
      by (rule pd_groupby_sum_again [OF refl]) (use setK Sne Kprops in auto)
    then show ?thesis
      using None by (simp add: d strat gS)
  qed
qed

theorem marginalize_then_stratify_witness:
  "length (index_names deaths) \<le> 1 \<and>
   index_name deaths \<notin> set (ensure_iterable (PyList [PStr ''sex'', PStr ''measure'']) deaths (Scalar PNone)) \<and>
   set (ensure_iterable (PyList []) deaths (Scalar PNone) @ default_INDEX_COLUMNS) =
     set (columns deaths)
       - set (ensure_iterable (PyList [PStr ''sex'', PStr ''measure'']) deaths (Scalar PNone))
       - set (ensure_iterable (Scalar VALUE_COLUMN) deaths (Scalar PNone)) \<and>
   PNone \<notin> set (columns deaths) \<and>
   ensure_iterable (PyList []) deaths (Scalar PNone) @ default_INDEX_COLUMNS \<noteq> [] \<and>
   bind_e (marginalize deaths (PyList [PStr ''sex'', PStr ''measure'']) (Scalar VALUE_COLUMN) True)
     (\<lambda>summed. stratify default_INDEX_COLUMNS summed (PyList []) (Scalar VALUE_COLUMN) True)
     = stratify default_INDEX_COLUMNS deaths (PyList []) (Scalar VALUE_COLUMN) True \<and>
   stratify default_INDEX_COLUMNS deaths (PyList []) (Scalar VALUE_COLUMN) True
     = Inr \<lparr>index_names = [PNone],
            columns = [PStr ''input_draw'', PStr ''scenario'', PStr ''value''],
            rows = [([Num 0], [Num 0, Cat ''baseline'', Num 8]),
                    ([Num 1], [Num 0, Cat ''treated'', Num 2])]\<rparr>"
proof -
  have h1: "length (index_names deaths) \<le> 1"
    by (simp add: deaths_def DataFrame_def)
  have h2: "index_name deaths
      \<notin> set (ensure_iterable (PyList [PStr ''sex'', PStr ''measure'']) deaths (Scalar PNone))"
    by (simp add: deaths_def DataFrame_def index_name_def ensure_iterable_def)
  have h3: "set (ensure_iterable (PyList []) deaths (Scalar PNone) @ default_INDEX_COLUMNS) =
     set (columns deaths)
       - set (ensure_iterable (PyList [PStr ''sex'', PStr ''measure'']) deaths (Scalar PNone))
       - set (ensure_iterable (Scalar VALUE_COLUMN) deaths (Scalar PNone))"
    by (auto simp: deaths_def DataFrame_def ensure_iterable_def default_INDEX_COLUMNS_def
        DRAW_COLUMN_def SCENARIO_COLUMN_def VALUE_COLUMN_def)
  have h4: "PNone \<notin> set (columns deaths)"
    by (simp add: deaths_def DataFrame_def)
  have h5: "ensure_iterable (PyList []) deaths (Scalar PNone) @ default_INDEX_COLUMNS \<noteq> []"
    by (simp add: default_INDEX_COLUMNS_def)
  have e: "stratify default_INDEX_COLUMNS deaths (PyList []) (Scalar VALUE_COLUMN) True
     = Inr \<lparr>index_names = [PNone],
            columns = [PStr ''input_draw'', PStr ''scenario'', PStr ''value''],
            rows = [([Num 0], [Num 0, Cat ''baseline'', Num 8]),
                    ([Num 1], [Num 0, Cat ''treated'', Num 2])]\<rparr>"
    by code_simp
  show ?thesis
    using h1 h2 h3 h4 h5 e
      marginalize_then_stratify [OF h1 h2 h3 h4 h5, where reset_index = True and reset_index' = True]
    by simp
qed

section \<open>Repeated \<^verbatim>\<open>marginalize\<close> and the grand total\<close>

lemma length_level_names [simp]: "length (level_names g) = length (index_names g)"
  by (simp add: level_names_def)

lemma pd_reset_index_Inr:
  assumes "pd_reset_index g = Inr d"
  shows "d = \<lparr>index_names = [PNone], columns = level_names g @ columns g,
              rows = range_index rpos (map (\<lambda>(k, d). k @ d) (rows g))\<rparr>"
    and "set (level_names g) \<inter> set (columns g) = {}"
  using assms
  by (auto simp: pd_reset_index_def pd_reset_index_with_def Let_def list_ex_iff split: if_splits)










section \<open>The ratio of a table with itself\<close>






lemma mul_cell_one [simp]: "mul_cell x 1 = x"
  by (cases x) (auto simp: mul_cell_def split: xreal.splits)





section \<open>The rows of \<^verbatim>\<open>difference\<close>\<close>

lemma cell_of_Cons:
  "cell_of (c0 # cols) (x0 # d) y = (if c0 = y then x0 else cell_of cols d y)"
  by (simp add: cell_of_def Let_def)

lemma cell_of_no_data [simp]: "cell_of cols [] y = NaN"
  by (simp add: cell_of_def Let_def)

lemma cell_of_filter_zip:
  "P y \<Longrightarrow> y \<in> set cols \<Longrightarrow>
     cell_of (filter P cols) (map snd (filter (\<lambda>(c, x). P c) (zip cols d))) y = cell_of cols d y"
proof (induction cols arbitrary: d)
  case Nil
  then show ?case by simp
next
  case (Cons c0 cols)
  show ?case
  proof (cases d)
    case Nil
    then show ?thesis by simp
  next
    case (Cons x0 d')
    show ?thesis
    proof (cases "c0 = y")
      case True
      then show ?thesis using Cons.prems(1) Cons by (simp add: cell_of_Cons)
    next
      case False
      then have "y \<in> set cols" using Cons.prems(2) by simp
      from Cons.IH [OF Cons.prems(1) this, of d'] show ?thesis
        using False Cons by (simp add: cell_of_Cons)
    qed
  qed
qed

lemma cell_of_drop_columns:
  "y \<notin> set keys \<Longrightarrow> y \<in> set cols \<Longrightarrow>
     cell_of (filter (\<lambda>c. c \<notin> set keys) cols) (drop_columns cols keys d) y = cell_of cols d y"
  unfolding drop_columns_def
  by (rule cell_of_filter_zip [where P = "\<lambda>c. c \<notin> set keys"]) auto

lemma cell_of_insert:
  "y \<noteq> name \<Longrightarrow> length d = length cols \<Longrightarrow>
     cell_of (take n cols @ [name] @ drop n cols) (take n d @ [x] @ drop n d) y = cell_of cols d y"
proof (induction n arbitrary: cols d)
  case 0
  then show ?case by (simp add: cell_of_Cons)
next
  case (Suc n)
  show ?case
  proof (cases cols)
    case Nil
    then show ?thesis using Suc.prems by (simp add: cell_of_def Let_def)
  next
    case (Cons c0 cols')
    then obtain x0 d' where d: "d = x0 # d'" using Suc.prems(2) by (cases d) auto
    then have "length d' = length cols'" using Suc.prems(2) Cons by simp
    from Suc.IH [OF Suc.prems(1) this] show ?thesis
      using Cons d by (simp add: cell_of_Cons)
  qed
qed

lemma index_of_nth_distinct: "distinct ns \<Longrightarrow> i < length ns \<Longrightarrow> index_of ns (ns ! i) = i"
proof (induction ns arbitrary: i)
  case Nil
  then show ?case by simp
next
  case (Cons a ns)
  then show ?case by (cases i) auto
qed

lemma project_self: "distinct ns \<Longrightarrow> length k = length ns \<Longrightarrow> map (cell_of ns k) ns = k"
  by (rule nth_equalityI) (auto simp: cell_of_def Let_def index_of_nth_distinct)

lemma outer_join_map:
  "outer_join kl kr (map f L) (map g R)
     = map (\<lambda>(k, l, r). (k, map_option f l, map_option g r))
         (outer_join (\<lambda>x. kl (f x)) (\<lambda>y. kr (g y)) L R)"
proof -
  let ?h = "\<lambda>(k, l, r). (k, map_option f l, map_option g r)"
  let ?B = "\<lambda>ls rs k. if rs = [] then map (\<lambda>l. (k, Some l, None)) ls
           else if ls = [] then map (\<lambda>r. (k, None, Some r)) rs
           else concat (map (\<lambda>l. map (\<lambda>r. (k, Some l, Some r)) rs) ls)"
  have blk: "?B (map f ls) (map g rs) k = map ?h (?B ls rs k)" for ls rs k
    by (simp add: map_concat comp_def)
  have "outer_join kl kr (map f L) (map g R)
      = concat (map (\<lambda>k. ?B (map f (filter (\<lambda>l. kl (f l) = k) L))
                             (map g (filter (\<lambda>r. kr (g r) = k) R)) k)
          (sort_keys (map (\<lambda>x. kl (f x)) L @ map (\<lambda>y. kr (g y)) R)))"
    by (simp add: outer_join_def Let_def filter_map comp_def)
  also have "\<dots> = concat (map (\<lambda>k. map ?h (?B (filter (\<lambda>l. kl (f l) = k) L)
                                               (filter (\<lambda>r. kr (g r) = k) R) k))
          (sort_keys (map (\<lambda>x. kl (f x)) L @ map (\<lambda>y. kr (g y)) R)))"
    by (simp only: blk)
  also have "\<dots> = map ?h (outer_join (\<lambda>x. kl (f x)) (\<lambda>y. kr (g y)) L R)"
    by (simp add: outer_join_def Let_def map_concat comp_def)
  finally show ?thesis .
qed

lemma find_map: "find P (map f xs) = map_option f (find (\<lambda>x. P (f x)) xs)"
  by (induction xs) auto

lemma select_rows_Inr:
  "select_rows df c p = Inr r \<Longrightarrow>
     c \<in> set (columns df) \<and> r = df\<lparr>rows := filter (\<lambda>r. p (cell_of (columns df) (snd r) c)) (rows df)\<rparr>"
  by (auto simp: select_rows_def split: if_splits)

lemma pd_set_index_Inr_shape:
  "pd_set_index df keys = Inr r \<Longrightarrow>
     keys \<noteq> [] \<and> set keys \<subseteq> set (columns df) \<and>
     r = \<lparr>index_names = keys, columns = filter (\<lambda>c. c \<notin> set keys) (columns df),
          rows = map (\<lambda>(k, d). (map (cell_of (columns df) d) keys, drop_columns (columns df) keys d))
                   (rows df)\<rparr>"
  by (auto simp: pd_set_index_def list_ex_iff split: if_splits)

lemma pd_set_index_append_Inr:
  "pd_set_index_append df key = Inr r \<Longrightarrow>
     key \<in> set (columns df) \<and>
     r = \<lparr>index_names = index_names df @ [key],
          columns = filter (\<lambda>c. c \<noteq> key) (columns df),
          rows = map (\<lambda>(k, d). (k @ [cell_of (columns df) d key], drop_columns (columns df) [key] d))
                   (rows df)\<rparr>"
  by (auto simp: pd_set_index_append_def split: if_splits)

lemma pd_select_columns_Inr:
  "pd_select_columns df cs = Inr r \<Longrightarrow>
     set cs \<subseteq> set (columns df) \<and>
     r = \<lparr>index_names = index_names df, columns = cs,
          rows = map (\<lambda>(k, d). (k, map (cell_of (columns df) d) cs)) (rows df)\<rparr>"
  by (auto simp: pd_select_columns_def list_ex_iff split: if_splits)

lemma pd_arith_Inr:
  assumes "pd_arith f emb L R = Inr r"
  shows "\<exists>names al. pd_align L R = Inr (names, al) \<and>
     r = \<lparr>index_names = names, columns = columns L,
          rows = map (\<lambda>(k, dl, dr).
                    (map emb k,
                     map (\<lambda>c. f (opt_cell (columns L) dl c) (opt_cell (columns R) dr c)) (columns L)))
                   al\<rparr>"
  using assms
  by (auto simp: pd_arith_def bind_e_def split: if_splits sum.splits)

lemma insert_column_Inr:
  "insert_column df loc name c = Inr r \<Longrightarrow>
     name \<notin> set (columns df) \<and>
     r = df\<lparr>columns := take loc (columns df) @ [name] @ drop loc (columns df),
            rows := map (\<lambda>(k, d).
                  (k, let d' = map (cell_of (columns df) d) (columns df)
                      in take loc d' @ [c] @ drop loc d')) (rows df)\<rparr>"
  by (auto simp: insert_column_def split: if_splits)

text \<open>
  The alignment of a frame indexed by the columns to match with a frame that has the
  identifier as one more level.
\<close>

lemma pd_align_extra_level:
  assumes names: "index_names L = ix" "index_names R = ix @ [c]"
    and ix: "ix \<noteq> []" "PNone \<notin> set ix" "c \<notin> set ix"
    and rows: "rows L = map (\<lambda>(k, v). (k, [v])) X" "rows R = map (\<lambda>(k, i, v). (k @ [i], [v])) Y"
    and len: "\<And>k v. (k, v) \<in> set X \<Longrightarrow> map (cell_of ix k) ix = k"
      "\<And>k i v. (k, i, v) \<in> set Y \<Longrightarrow> map (cell_of ix k) ix = k"
  shows "pd_align L R =
     (if length ix > 1 then
        Inr (ix @ [c],
          map (\<lambda>(k, l, r). (k @ (case r of None \<Rightarrow> [NaN] | Some (k', i, v) \<Rightarrow> [i]),
                 map_option (\<lambda>(k, v). [v]) l, map_option (\<lambda>(k, i, v). [v]) r))
            (outer_join fst fst X Y))
      else if \<not> distinct (map fst X) then Inl NotImplementedError
      else
        Inr (ix @ [c],
          map (\<lambda>(k, i, v). (k @ [i], map_option (\<lambda>(k, v). [v]) (find (\<lambda>x. fst x = k) X), Some [v])) Y))"
proof -
  have common: "filter (\<lambda>n. n \<noteq> PNone \<and> n \<in> set (ix @ [c])) ix = ix"
    using ix(2) by (auto simp: filter_id_conv)
  have ldrop: "filter (\<lambda>n. n \<notin> set ix) ix = []" by (simp add: filter_empty_conv)
  have rdrop: "filter (\<lambda>n. n \<notin> set ix) (ix @ [c]) = [c]"
    using ix(3) by (simp add: filter_empty_conv)
  have ne: "ix \<noteq> ix @ [c]" by simp
  have pl: "project ix ix k = k" if "(k, v) \<in> set X" for k v
    using len(1) [OF that] by (simp add: project_def)
  have pr: "project (ix @ [c]) ix (k @ [i]) = k" if "(k, i, v) \<in> set Y" for k i v
  proof -
    have l: "length k = length ix" using len(2) [OF that] by (metis length_map)
    have "project (ix @ [c]) ix (k @ [i]) = map (cell_of ix k) ix"
      using l by (auto simp: project_def cell_of_append_left)
    also have "\<dots> = k"
      using len(2) [OF that] .
    finally show ?thesis .
  qed
  have first: "\<not> (length ix = length (ix @ [c]) \<and> map fst (rows L) = map fst (rows R))" by simp
  show ?thesis
  proof (cases "length ix > 1")
    case True
    have oj: "outer_join (\<lambda>l. project ix ix (fst l)) (\<lambda>r. project (ix @ [c]) ix (fst r)) (rows L) (rows R)
        = map (\<lambda>(k, l, r). (k, map_option (\<lambda>(k, v). (k, [v])) l, map_option (\<lambda>(k, i, v). (k @ [i], [v])) r))
            (outer_join fst fst X Y)"
    proof -
      have "outer_join (\<lambda>l. project ix ix (fst l)) (\<lambda>r. project (ix @ [c]) ix (fst r)) (rows L) (rows R)
        = map (\<lambda>(k, l, r). (k, map_option (\<lambda>(k, v). (k, [v])) l, map_option (\<lambda>(k, i, v). (k @ [i], [v])) r))
            (outer_join (\<lambda>x. project ix ix (fst (case x of (k, v) \<Rightarrow> (k, [v]))))
               (\<lambda>y. project (ix @ [c]) ix (fst (case y of (k, i, v) \<Rightarrow> (k @ [i], [v])))) X Y)"
        unfolding rows by (rule outer_join_map)
      also have "outer_join (\<lambda>x. project ix ix (fst (case x of (k, v) \<Rightarrow> (k, [v]))))
               (\<lambda>y. project (ix @ [c]) ix (fst (case y of (k, i, v) \<Rightarrow> (k @ [i], [v])))) X Y
          = outer_join fst fst X Y"
      proof -
        have a: "map (\<lambda>x. project ix ix (fst (case x of (k, v) \<Rightarrow> (k, [v])))) X = map fst X"
          using pl by (auto intro!: map_cong)
        have b: "map (\<lambda>y. project (ix @ [c]) ix (fst (case y of (k, i, v) \<Rightarrow> (k @ [i], [v])))) Y = map fst Y"
          using pr by (auto intro!: map_cong)
        have fa: "filter (\<lambda>x. project ix ix (fst (case x of (k, v) \<Rightarrow> (k, [v]))) = k) X
            = filter (\<lambda>x. fst x = k) X" for k
          using pl by (auto intro!: filter_cong)
        have fb: "filter (\<lambda>y. project (ix @ [c]) ix (fst (case y of (k, i, v) \<Rightarrow> (k @ [i], [v]))) = k) Y
            = filter (\<lambda>y. fst y = k) Y" for k
          using pr by (auto intro!: filter_cong)
        show ?thesis
          unfolding outer_join_def Let_def a b fa fb ..
      qed
      finally show ?thesis .
    qed
    have "pd_align L R = Inr (ix @ [c],
        map (\<lambda>(k, l, r). (k @ restore ix [] l @ restore (ix @ [c]) [c] r, map_option snd l, map_option snd r))
          (outer_join (\<lambda>l. project ix ix (fst l)) (\<lambda>r. project (ix @ [c]) ix (fst r)) (rows L) (rows R)))"
      unfolding pd_align_def names Let_def common ldrop rdrop
      using True ix(1) by simp
    also have "map (\<lambda>(k, l, r). (k @ restore ix [] l @ restore (ix @ [c]) [c] r, map_option snd l, map_option snd r))
          (outer_join (\<lambda>l. project ix ix (fst l)) (\<lambda>r. project (ix @ [c]) ix (fst r)) (rows L) (rows R))
        = map (\<lambda>(k, l, r). (k @ (case r of None \<Rightarrow> [NaN] | Some (k', i, v) \<Rightarrow> [i]),
                 map_option (\<lambda>(k, v). [v]) l, map_option (\<lambda>(k, i, v). [v]) r))
            (outer_join fst fst X Y)"
    proof -
      have len_y: "length k' = length ix"
        if "(k, l, Some (k', i, v)) \<in> set (outer_join fst fst X Y)" for k l k' i v
      proof -
        from that have "(k', i, v) \<in> set Y"
          by (auto simp: outer_join_def Let_def split: if_splits)
        from len(2) [OF this] show ?thesis by (metis length_map)
      qed
      show ?thesis
        unfolding oj map_map comp_def
      proof (rule map_cong [OF refl], goal_cases)
        case (1 x)
        obtain k l r where x: "x = (k, l, r)" by (cases x) auto
        show ?case
        proof (cases r)
          case None
          then show ?thesis
            by (cases l) (auto simp: x restore_def project_def split_def)
        next
          case (Some y)
          obtain k' i v where y: "y = (k', i, v)" by (cases y) auto
          have "length k' = length ix" using len_y 1 x Some y by blast
          then have "cell_of (ix @ [c]) (k' @ [i]) c = i"
            using ix(3) by (simp add: cell_of_append_right cell_of_Cons)
          then show ?thesis
            by (cases l) (auto simp: x Some y restore_def project_def split_def)
        qed
      qed
    qed
    finally show ?thesis using True by simp
  next
    case False
    then have one: "\<not> length ix > 1" "length (ix @ [c]) > 1" using ix(1) by (auto simp: Suc_lessI)
    have dl: "map fst (rows L) = map fst X"
      by (simp add: rows comp_def split_def)
    have "pd_align L R =
        (if \<not> distinct (map fst X) then Inl NotImplementedError
         else Inr (ix @ [c], map (\<lambda>r. (fst r,
                     map_option snd (find (\<lambda>l. fst l = project (ix @ [c]) ix (fst r)) (rows L)),
                     Some (snd r))) (rows R)))"
      unfolding pd_align_def names Let_def common dl
      using one ix(1) by simp
    also have "map (\<lambda>r. (fst r,
                     map_option snd (find (\<lambda>l. fst l = project (ix @ [c]) ix (fst r)) (rows L)),
                     Some (snd r))) (rows R)
        = map (\<lambda>(k, i, v). (k @ [i], map_option (\<lambda>(k, v). [v]) (find (\<lambda>x. fst x = k) X), Some [v])) Y"
      unfolding rows map_map comp_def
    proof (rule map_cong [OF refl], goal_cases)
      case (1 y)
      obtain k i v where y: "y = (k, i, v)" by (cases y) auto
      have p: "project (ix @ [c]) ix (k @ [i]) = k" using pr 1 y by blast
      have "find (\<lambda>l. fst l = k) (map (\<lambda>(k, v). (k, [v])) X)
          = map_option (\<lambda>(k, v). (k, [v])) (find (\<lambda>x. fst x = k) X)"
        by (simp add: find_map split_def)
      then show ?case
        by (simp add: y p option.map_comp comp_def split_def)
    qed
    finally show ?thesis using False by simp
  qed
qed

lemma difference_both_ids_values:
  assumes d: "difference m c (Some a) (Some b) = Inr d" and named: "PNone \<notin> set (columns m)"
  shows "matched_values m c d =
           aligned_differences (length (match_columns m c))
             (keyed_values m c (\<lambda>x. py_eq x a)) (keyed_values m c (\<lambda>x. py_eq x b))"
    and "length (match_columns m c) \<le> 1 \<Longrightarrow> distinct (map fst (keyed_values m c (\<lambda>x. py_eq x a)))"
proof -
  define cols where "cols = columns m"
  define ix where "ix = match_columns m c"
  let ?V = VALUE_COLUMN
  define kf where "kf = (\<lambda>r :: real cell list \<times> real cell list. map (cell_of cols (snd r)) ix)"
  define vf where "vf = (\<lambda>r :: real cell list \<times> real cell list. cell_of cols (snd r) ?V)"
  define idf where "idf = (\<lambda>r :: real cell list \<times> real cell list. cell_of cols (snd r) c)"
  define RA where "RA = filter (\<lambda>r. py_eq (idf r) a) (rows m)"
  define RB where "RB = filter (\<lambda>r. py_eq (idf r) b) (rows m)"
  define X where "X = map (\<lambda>r. (kf r, vf r)) RA"
  define Y where "Y = map (\<lambda>r. (kf r, idf r, vf r)) RB"
  define cols1 where "cols1 = filter (\<lambda>x. x \<notin> set ix) cols"
  define cols2 where "cols2 = filter (\<lambda>x. x \<noteq> c) cols1"
  have KA: "keyed_values m c (\<lambda>x. py_eq x a) = X"
    by (simp add: keyed_values_def X_def RA_def kf_def vf_def idf_def cols_def ix_def)
  have KB: "keyed_values m c (\<lambda>x. py_eq x b) = map (\<lambda>(k, i, v). (k, v)) Y"
    by (simp add: keyed_values_def Y_def RB_def kf_def vf_def idf_def cols_def ix_def comp_def)
  from d obtain M0 S0 M1 S1 S2 Mv Sv D0 D1 loc where
    ops: "difference_operands m c (Some a) (Some b) = Inr (M0, S0)"
    and m1: "pd_set_index M0 ix = Inr M1"
    and s1: "pd_set_index S0 ix = Inr S1"
    and s2: "pd_set_index_append S1 c = Inr S2"
    and mv: "pd_select_columns M1 [?V] = Inr Mv"
    and sv: "pd_select_columns S2 [?V] = Inr Sv"
    and ar: "pd_arith sub_cell id Mv Sv = Inr D0"
    and rs: "pd_reset_index D0 = Inr D1"
    and gl: "get_loc D1 c = Inr loc"
    and ins: "insert_column D1 (loc + 1) (PStr ''subtracted_from'') a = Inr d"
    unfolding difference_def Let_def ix_def
    by (auto simp: bind_e_Inr_iff)
  have cin: "c \<in> set cols" and M0: "M0 = m\<lparr>rows := RA\<rparr>" and S0: "S0 = m\<lparr>rows := RB\<rparr>"
    using ops
    by (auto simp: difference_operands_def bind_e_Inr_iff cols_def RA_def RB_def idf_def
        dest!: select_rows_Inr)
  have ixne: "ix \<noteq> []"
    and M1: "M1 = \<lparr>index_names = ix, columns = cols1,
          rows = map (\<lambda>r. (kf r, drop_columns cols ix (snd r))) RA\<rparr>"
    using pd_set_index_Inr_shape [OF m1]
    by (simp_all add: M0 cols_def cols1_def kf_def split_def)
  have S1: "S1 = \<lparr>index_names = ix, columns = cols1,
          rows = map (\<lambda>r. (kf r, drop_columns cols ix (snd r))) RB\<rparr>"
    using pd_set_index_Inr_shape [OF s1]
    by (simp_all add: S0 cols_def cols1_def kf_def split_def)
  have ixd: "distinct ix" and cix: "c \<notin> set ix" and Vix: "?V \<notin> set ix"
    and ixsub: "set ix \<subseteq> set cols" and ixn: "PNone \<notin> set ix"
    using named by (auto simp: ix_def match_columns_def cols_def)
  have c1: "c \<in> set cols1" using cin cix by (simp add: cols1_def)
  have S2: "S2 = \<lparr>index_names = ix @ [c], columns = cols2,
          rows = map (\<lambda>r. (kf r @ [idf r], drop_columns cols1 [c] (drop_columns cols ix (snd r)))) RB\<rparr>"
    using pd_set_index_append_Inr [OF s2] cix cin
    by (simp add: S1 cols2_def comp_def idf_def cols1_def cell_of_drop_columns)
  have V1: "?V \<in> set cols1" using pd_select_columns_Inr [OF mv] by (simp add: M1)
  then have Vc: "?V \<in> set cols" by (simp add: cols1_def)
  have V2: "?V \<in> set cols2" using pd_select_columns_Inr [OF sv] by (simp add: S2)
  then have Vnc: "?V \<noteq> c" by (auto simp: cols2_def)
  have val1: "cell_of cols1 (drop_columns cols ix dd) ?V = cell_of cols dd ?V" for dd
    unfolding cols1_def using Vix Vc by (rule cell_of_drop_columns)
  have val2: "cell_of cols2 (drop_columns cols1 [c] dd) ?V = cell_of cols1 dd ?V" for dd
  proof -
    have "cell_of (filter (\<lambda>x. x \<notin> set [c]) cols1) (drop_columns cols1 [c] dd) ?V = cell_of cols1 dd ?V"
      by (rule cell_of_drop_columns) (use Vnc V1 in auto)
    then show ?thesis by (simp add: cols2_def)
  qed
  have Mv: "index_names Mv = ix" "columns Mv = [?V]" "rows Mv = map (\<lambda>(k, v). (k, [v])) X"
    using pd_select_columns_Inr [OF mv]
    by (simp_all add: M1 X_def comp_def val1 vf_def)
  have Sv: "index_names Sv = ix @ [c]" "columns Sv = [?V]"
    "rows Sv = map (\<lambda>(k, i, v). (k @ [i], [v])) Y"
    using pd_select_columns_Inr [OF sv]
    by (simp_all add: S2 Y_def comp_def val1 val2 vf_def)
  have kfx: "map (cell_of ix k) ix = k" if "(k, v) \<in> set X" for k v
    using that by (auto simp: X_def kf_def cell_of_map)
  have kfy: "map (cell_of ix k) ix = k" if "(k, i, v) \<in> set Y" for k i v
    using that by (auto simp: Y_def kf_def cell_of_map)
  note al = pd_align_extra_level [OF Mv(1) Sv(1) ixne ixn cix Mv(3) Sv(3) kfx kfy]
  from pd_arith_Inr [OF ar] obtain names aligned where
    pa: "pd_align Mv Sv = Inr (names, aligned)"
    and D0: "D0 = \<lparr>index_names = names, columns = [?V],
          rows = map (\<lambda>(k, dl, dr). (k, [sub_cell (opt_cell [?V] dl ?V) (opt_cell [?V] dr ?V)])) aligned\<rparr>"
    by (auto simp: Mv Sv)
  show dist: "distinct (map fst (keyed_values m c (\<lambda>x. py_eq x a)))"
    if "length (match_columns m c) \<le> 1"
    using that pa al by (auto simp: KA ix_def split: if_splits)
  have nm: "names = ix @ [c]"
    using pa al by (auto split: if_splits)
  define E where "E = (if length ix > 1
      then map (\<lambda>(k, l, r). (k @ (case r of None \<Rightarrow> [NaN] | Some (k', i, v) \<Rightarrow> [i]),
                  sub_cell (opt_value l) (opt_value (map_option (\<lambda>(k, i, v). (k, v)) r))))
             (outer_join fst fst X Y)
      else map (\<lambda>(k, i, v). (k @ [i], sub_cell (opt_value (find (\<lambda>x. fst x = k) X)) v)) Y)"
  have D0rows: "rows D0 = map (\<lambda>(k, w). (k, [w])) E"
  proof (cases "length ix > 1")
    case True
    then have "aligned = map (\<lambda>(k, l, r). (k @ (case r of None \<Rightarrow> [NaN] | Some (k', i, v) \<Rightarrow> [i]),
                 map_option (\<lambda>(k, v). [v]) l, map_option (\<lambda>(k, i, v). [v]) r))
            (outer_join fst fst X Y)"
      using pa al by simp
    then show ?thesis
      using True
      by (auto simp: D0 E_def comp_def split_def opt_cell_def opt_value_def cell_of_Cons
          split: option.splits)
  next
    case False
    then have "aligned = map (\<lambda>(k, i, v). (k @ [i],
        map_option (\<lambda>(k, v). [v]) (find (\<lambda>x. fst x = k) X), Some [v])) Y"
      using pa al by (auto split: if_splits)
    then show ?thesis
      using False
      by (auto simp: D0 E_def comp_def split_def opt_cell_def opt_value_def cell_of_Cons
          split: option.splits)
  qed
  have Ekey: "\<exists>k i. k' = k @ [i] \<and> map (cell_of ix k) ix = k" if "(k', w) \<in> set E" for k' w
  proof (cases "length ix > 1")
    case True
    with that obtain k l r where
      o: "(k, l, r) \<in> set (outer_join fst fst X Y)"
      and k': "k' = k @ (case r of None \<Rightarrow> [NaN] | Some (k', i, v) \<Rightarrow> [i])"
      by (auto simp: E_def)
    from o have "k \<in> fst ` set X \<union> fst ` set Y"
      by (auto simp: outer_join_def Let_def split: if_splits)
    then have "map (cell_of ix k) ix = k" using kfx kfy by fastforce
    then show ?thesis using k' by (cases r) auto
  next
    case False
    with that show ?thesis using kfy by (auto simp: E_def)
  qed
  have D1: "D1 = \<lparr>index_names = [PNone], columns = (ix @ [c]) @ [?V],
        rows = range_index rpos (map (\<lambda>(k, w). k @ [w]) E)\<rparr>"
  proof -
    have f: "index_names D0 = ix @ [c]" "columns D0 = [?V]" by (simp_all add: D0 nm)
    have "PNone \<notin> set (index_names D0)" using ixn cin named by (auto simp: f cols_def)
    then have "level_names D0 = ix @ [c]" by (simp add: level_names_named f)
    then show ?thesis
      using pd_reset_index_Inr(1) [OF rs] by (simp add: D0rows comp_def split_def f)
  qed
  define c1 where "c1 = (ix @ [c]) @ [?V]"
  define cd where "cd = take (loc + 1) c1 @ [PStr ''subtracted_from''] @ drop (loc + 1) c1"
  define insf where "insf = (\<lambda>x. take (loc + 1) (map (cell_of c1 x) c1) @ [a]
      @ drop (loc + 1) (map (cell_of c1 x) c1))"
  have D1f: "columns D1 = c1" "map snd (rows D1) = map (\<lambda>(k, w). k @ [w]) E"
    by (simp_all add: D1 c1_def)
  have sf: "PStr ''subtracted_from'' \<notin> set c1"
    and dcols: "columns d = cd"
    and drows: "rows d = map (\<lambda>r. (fst r, insf (snd r))) (rows D1)"
    using insert_column_Inr [OF ins]
    by (simp_all add: D1f(1) cd_def insf_def Let_def split_def)
  have cellD: "cell_of cd (insf x) y = cell_of c1 x y" if "y \<in> set c1" for x y
  proof -
    have "y \<noteq> PStr ''subtracted_from''" using that sf by auto
    then have "cell_of cd (insf x) y = cell_of c1 (map (cell_of c1 x) c1) y"
      unfolding cd_def insf_def by (rule cell_of_insert) simp
    also have "\<dots> = cell_of c1 x y" using that by (rule cell_of_map)
    finally show ?thesis .
  qed
  have inc1: "set ix \<subseteq> set c1" "?V \<in> set c1" by (auto simp: c1_def)
  have "matched_values m c d
      = map (\<lambda>r. (map (cell_of cd (insf (snd r))) ix, cell_of cd (insf (snd r)) ?V)) (rows D1)"
    unfolding matched_values_def ix_def [symmetric] dcols drows by (simp add: comp_def)
  also have "\<dots> = map (\<lambda>r. (map (cell_of c1 (snd r)) ix, cell_of c1 (snd r) ?V)) (rows D1)"
  proof (rule map_cong [OF refl], goal_cases)
    case (1 r)
    have "map (cell_of cd (insf (snd r))) ix = map (cell_of c1 (snd r)) ix"
      using inc1(1) by (auto intro!: map_cong simp: cellD)
    then show ?case using inc1(2) by (simp add: cellD)
  qed
  also have "\<dots> = map (\<lambda>x. (map (cell_of c1 x) ix, cell_of c1 x ?V)) (map snd (rows D1))"
    by (simp add: comp_def)
  also have "\<dots> = map (\<lambda>(k', w). (map (cell_of c1 (k' @ [w])) ix, cell_of c1 (k' @ [w]) ?V)) E"
    unfolding D1f(2) by (simp add: comp_def split_def)
  also have "\<dots> = map (\<lambda>(k', w). (butlast k', w)) E"
  proof (rule map_cong [OF refl], goal_cases)
    case (1 e)
    obtain k' w where e: "e = (k', w)" by (cases e) auto
    from Ekey [of k' w] 1 e obtain k i where k': "k' = k @ [i]" and kk: "map (cell_of ix k) ix = k"
      by blast
    have l: "length k = length ix" using kk by (metis length_map)
    have "cell_of c1 (k' @ [w]) y = cell_of ix k y" if "y \<in> set ix" for y
      using that l cell_of_append_left [of y ix k "[c] @ [?V]" "[i] @ [w]"] by (simp add: k' c1_def)
    then have a: "map (cell_of c1 (k' @ [w])) ix = k" using kk by (simp cong: map_cong)
    have "cell_of c1 (k' @ [w]) ?V = cell_of [?V] [w] ?V"
      using cell_of_append_right [of ?V "ix @ [c]" k' "[?V]" "[w]"] Vix Vnc l by (simp add: k' c1_def)
    then have b: "cell_of c1 (k' @ [w]) ?V = w" by (simp add: cell_of_Cons)
    show ?case using a b by (simp add: e k')
  qed
  also have "\<dots> = aligned_differences (length ix) X (map (\<lambda>(k, i, v). (k, v)) Y)"
  proof (cases "length ix > 1")
    case True
    have "outer_join fst fst X (map (\<lambda>(k, i, v). (k, v)) Y)
        = map (\<lambda>(k, l, r). (k, l, map_option (\<lambda>(k, i, v). (k, v)) r)) (outer_join fst fst X Y)"
      using outer_join_map [of fst fst "\<lambda>x. x" X "\<lambda>(k, i, v). (k, v)" Y]
      by (simp add: split_def option.map_ident cong: map_cong)
    then show ?thesis
      using True
      by (auto simp: aligned_differences_def E_def comp_def split_def butlast_append
          split: option.splits)
  next
    case False
    then show ?thesis
      by (auto simp: aligned_differences_def E_def comp_def split_def butlast_append)
  qed
  finally show "matched_values m c d =
           aligned_differences (length (match_columns m c))
             (keyed_values m c (\<lambda>x. py_eq x a)) (keyed_values m c (\<lambda>x. py_eq x b))"
    by (simp add: KA KB ix_def)
qed

section \<open>\<^verbatim>\<open>difference\<close> with the ids exchanged\<close>

lemma neg_sub_cell: "neg_cell (sub_cell x y) = sub_cell y x"
  by (auto simp: neg_cell_def sub_cell_def split: cell.splits)

lemma filter_concat_blocks:
  assumes "distinct K" and "\<And>k' x. k' \<in> set K \<Longrightarrow> x \<in> set (B k') \<Longrightarrow> fst x = k'"
  shows "filter (\<lambda>x. fst x = k) (concat (map B K)) = (if k \<in> set K then B k else [])"
  using assms
proof (induction K)
  case Nil
  then show ?case by simp
next
  case (Cons k' K)
  have ih: "filter (\<lambda>x. fst x = k) (concat (map B K)) = (if k \<in> set K then B k else [])"
    using Cons by simp
  have blk: "filter (\<lambda>x. fst x = k) (B k') = (if k = k' then B k else [])"
    using Cons.prems(2) [of k'] by (auto simp: filter_empty_conv filter_id_conv)
  show ?case using Cons.prems(1) by (simp add: ih blk)
qed

lemma mset_concat_Cons:
  "mset (concat (map (\<lambda>r. g r # h r) rs)) = mset (map g rs) + mset (concat (map h rs))"
  by (induction rs) simp_all

lemma mset_product_swap:
  "mset (concat (map (\<lambda>l. map (\<lambda>r. f l r) rs) ls))
     = mset (concat (map (\<lambda>r. map (\<lambda>l. f l r) ls) rs))"
proof (induction ls)
  case Nil
  show ?case by (induction rs) simp_all
next
  case (Cons l ls)
  have "mset (concat (map (\<lambda>r. map (\<lambda>l. f l r) (l # ls)) rs))
      = mset (map (f l) rs) + mset (concat (map (\<lambda>r. map (\<lambda>l. f l r) ls) rs))"
    using mset_concat_Cons [of "f l" "\<lambda>r. map (\<lambda>l. f l r) ls" rs] by simp
  then show ?case using Cons.IH by simp
qed

lemma values_at_outer_join:
  "values_at (map (\<lambda>(k, l, r). (k, F l r)) (outer_join fst fst X Y)) k =
     (let ls = filter (\<lambda>l. fst l = k) X; rs = filter (\<lambda>r. fst r = k) Y
      in if rs = [] then mset (map (\<lambda>l. F (Some l) None) ls)
         else if ls = [] then mset (map (\<lambda>r. F None (Some r)) rs)
         else mset (concat (map (\<lambda>l. map (\<lambda>r. F (Some l) (Some r)) rs) ls)))"
proof -
  define B where "B = (\<lambda>k. let ls = filter (\<lambda>l. fst l = k) X; rs = filter (\<lambda>r. fst r = k) Y
        in if rs = [] then map (\<lambda>l. (k, Some l, None)) ls
           else if ls = [] then map (\<lambda>r. (k, None, Some r)) rs
           else concat (map (\<lambda>l. map (\<lambda>r. (k, Some l, Some r)) rs) ls))"
  define K where "K = sort_keys (map fst X @ map fst Y)"
  have oj: "outer_join fst fst X Y = concat (map B K)"
    by (simp add: outer_join_def B_def K_def)
  have dK: "distinct K" by (simp add: K_def distinct_sort_keys)
  have sK: "set K = fst ` set X \<union> fst ` set Y" by (simp add: K_def set_sort_keys)
  have fB: "fst x = k'" if "x \<in> set (B k')" for k' x
    using that by (auto simp: B_def Let_def split: if_splits)
  have f: "filter (\<lambda>x. fst x = k) (concat (map B K)) = (if k \<in> set K then B k else [])"
    using dK fB by (rule filter_concat_blocks)
  have e: "B k = []" if "k \<notin> set K"
  proof -
    have "filter (\<lambda>l. fst l = k) X = []" "filter (\<lambda>r. fst r = k) Y = []"
      using that sK by (auto simp: filter_empty_conv)
    then show ?thesis by (simp add: B_def)
  qed
  have "filter (\<lambda>x. fst x = k) (map (\<lambda>(k, l, r). (k, F l r)) (outer_join fst fst X Y))
      = map (\<lambda>(k, l, r). (k, F l r)) (filter (\<lambda>x. fst x = k) (outer_join fst fst X Y))"
    by (simp add: filter_map comp_def split_def)
  also have "\<dots> = map (\<lambda>(k, l, r). (k, F l r)) (B k)"
    using f e by (simp add: oj)
  finally have v: "values_at (map (\<lambda>(k, l, r). (k, F l r)) (outer_join fst fst X Y)) k
      = mset (map (\<lambda>(k, l, r). F l r) (B k))"
    by (simp add: values_at_def comp_def split_def)
  have "map (\<lambda>(k, l, r). F l r) (B k)
      = (let ls = filter (\<lambda>l. fst l = k) X; rs = filter (\<lambda>r. fst r = k) Y
      in if rs = [] then map (\<lambda>l. F (Some l) None) ls
         else if ls = [] then map (\<lambda>r. F None (Some r)) rs
         else concat (map (\<lambda>l. map (\<lambda>r. F (Some l) (Some r)) rs) ls))"
    by (simp add: B_def Let_def comp_def map_concat)
  then show ?thesis
    unfolding v by (simp only: Let_def if_distrib [of mset])
qed

lemma aligned_differences_swap_multi:
  assumes n: "n > 1"
  shows "image_mset neg_cell (values_at (aligned_differences n X Y) k)
           = values_at (aligned_differences n Y X) k"
proof -
  define ls where "ls = filter (\<lambda>l. fst l = k) X"
  define rs where "rs = filter (\<lambda>r. fst r = k) Y"
  let ?F = "\<lambda>l r. sub_cell (opt_value l) (opt_value r)"
  have a: "values_at (aligned_differences n X Y) k =
      (if rs = [] then mset (map (\<lambda>l. ?F (Some l) None) ls)
       else if ls = [] then mset (map (\<lambda>r. ?F None (Some r)) rs)
       else mset (concat (map (\<lambda>l. map (\<lambda>r. ?F (Some l) (Some r)) rs) ls)))"
    using n values_at_outer_join [of ?F X Y k]
    by (simp add: aligned_differences_def ls_def rs_def Let_def)
  have b: "values_at (aligned_differences n Y X) k =
      (if ls = [] then mset (map (\<lambda>r. ?F (Some r) None) rs)
       else if rs = [] then mset (map (\<lambda>l. ?F None (Some l)) ls)
       else mset (concat (map (\<lambda>r. map (\<lambda>l. ?F (Some r) (Some l)) ls) rs)))"
    using n values_at_outer_join [of ?F Y X k]
    by (simp add: aligned_differences_def ls_def rs_def Let_def)
  have p: "image_mset neg_cell (mset (concat (map (\<lambda>l. map (\<lambda>r. ?F (Some l) (Some r)) rs) ls)))
      = mset (concat (map (\<lambda>r. map (\<lambda>l. ?F (Some r) (Some l)) ls) rs))"
  proof -
    have "image_mset neg_cell (mset (concat (map (\<lambda>l. map (\<lambda>r. ?F (Some l) (Some r)) rs) ls)))
        = mset (map neg_cell (concat (map (\<lambda>l. map (\<lambda>r. ?F (Some l) (Some r)) rs) ls)))"
      by simp
    also have "\<dots> = mset (concat (map (\<lambda>l. map (\<lambda>r. ?F (Some r) (Some l)) rs) ls))"
      by (simp only: map_concat map_map comp_def neg_sub_cell)
    also have "\<dots> = mset (concat (map (\<lambda>r. map (\<lambda>l. ?F (Some r) (Some l)) ls) rs))"
      by (rule mset_product_swap)
    finally show ?thesis .
  qed
  show ?thesis
    unfolding a b using p
    by (auto simp: multiset.map_comp comp_def neg_sub_cell)
qed

lemma distinct_key_row:
  assumes "distinct (map fst Y)" and "k \<in> fst ` set Y"
  shows "\<exists>v. filter (\<lambda>x. fst x = k) Y = [(k, v)] \<and> find (\<lambda>x. fst x = k) Y = Some (k, v)"
  using assms
proof (induction Y)
  case Nil
  then show ?case by simp
next
  case (Cons y Y)
  show ?case
  proof (cases "fst y = k")
    case True
    then have "k \<notin> fst ` set Y"
      using Cons.prems(1) by simp
    then have "filter (\<lambda>x. fst x = k) Y = []"
      by (fastforce simp: filter_empty_conv image_iff)
    then show ?thesis using True by (cases y) auto
  next
    case False
    then show ?thesis using Cons by auto
  qed
qed

lemma aligned_differences_swap_flat:
  assumes n: "\<not> n > 1" and dX: "distinct (map fst X)" and dY: "distinct (map fst Y)"
    and k1: "k \<in> fst ` set (aligned_differences n X Y)"
    and k2: "k \<in> fst ` set (aligned_differences n Y X)"
  shows "image_mset neg_cell (values_at (aligned_differences n X Y) k)
           = values_at (aligned_differences n Y X) k"
proof -
  have kY: "k \<in> fst ` set Y" using k1 n by (fastforce simp: aligned_differences_def image_iff)
  have kX: "k \<in> fst ` set X" using k2 n by (fastforce simp: aligned_differences_def image_iff)
  from distinct_key_row [OF dX kX] obtain v where
    X: "filter (\<lambda>x. fst x = k) X = [(k, v)]" "find (\<lambda>x. fst x = k) X = Some (k, v)" by blast
  from distinct_key_row [OF dY kY] obtain w where
    Y: "filter (\<lambda>x. fst x = k) Y = [(k, w)]" "find (\<lambda>x. fst x = k) Y = Some (k, w)" by blast
  have g: "values_at (map (\<lambda>y. (fst y, G y)) Z) k = mset (map G (filter (\<lambda>x. fst x = k) Z))"
    for G :: "real cell list \<times> real cell \<Rightarrow> real cell" and Z
    by (simp add: values_at_def filter_map comp_def)
  have a: "values_at (aligned_differences n X Y) k = {#sub_cell v w#}"
    using n by (simp add: aligned_differences_def g Y X opt_value_def)
  have b: "values_at (aligned_differences n Y X) k = {#sub_cell w v#}"
    using n by (simp add: aligned_differences_def g Y X opt_value_def)
  show ?thesis by (simp add: a b neg_sub_cell)
qed

text \<open>
  Claim C4. Let \<^verbatim>\<open>difference(measure, col, minuend_id=A, subtrahend_id=B)\<close> and the call with
  the two ids exchanged both return, on a table whose columns all have a name. Then, for every
  key on the columns to match that occurs in both results, the values of the first result
  under that key, negated, are the values of the second result under that key (as multisets:
  a key can have several rows, and the two results list them in a different order).
\<close>

theorem difference_swapped_ids_negated:
  assumes d1: "difference measure_df identifier_col (Some a) (Some b) = Inr d1"
    and d2: "difference measure_df identifier_col (Some b) (Some a) = Inr d2"
    and named: "PNone \<notin> set (columns measure_df)"
    and k1: "k \<in> fst ` set (matched_values measure_df identifier_col d1)"
    and k2: "k \<in> fst ` set (matched_values measure_df identifier_col d2)"
  shows "image_mset neg_cell (values_at (matched_values measure_df identifier_col d1) k)
           = values_at (matched_values measure_df identifier_col d2) k"
proof -
  define n where "n = length (match_columns measure_df identifier_col)"
  define X where "X = keyed_values measure_df identifier_col (\<lambda>x. py_eq x a)"
  define Y where "Y = keyed_values measure_df identifier_col (\<lambda>x. py_eq x b)"
  note v1 = difference_both_ids_values [OF d1 named, folded n_def X_def Y_def]
  note v2 = difference_both_ids_values [OF d2 named, folded n_def X_def Y_def]
  show ?thesis
  proof (cases "n > 1")
    case True
    then show ?thesis
      unfolding v1(1) v2(1) by (rule aligned_differences_swap_multi)
  next
    case False
    then have "distinct (map fst X)" "distinct (map fst Y)"
      using v1(2) v2(2) by simp_all
    then show ?thesis
      using False k1 k2 unfolding v1(1) v2(1) by (intro aligned_differences_swap_flat)
  qed
qed

theorem difference_swapped_ids_negated_witness:
  "difference deaths SCENARIO_COLUMN (Some (Cat ''baseline'')) (Some (Cat ''treated''))
     = Inr \<lparr>index_names = [PNone],
            columns = [PStr ''input_draw'', PStr ''sex'', PStr ''measure'', PStr ''scenario'',
                       PStr ''subtracted_from'', PStr ''value''],
            rows = [([Num 0], [Num 0, Cat ''female'', Cat ''deaths'', Cat ''treated'',
                               Cat ''baseline'', Num 3]),
                    ([Num 1], [Num 0, Cat ''male'', Cat ''deaths'', Cat ''treated'',
                               Cat ''baseline'', Num 3])]\<rparr> \<and>
   difference deaths SCENARIO_COLUMN (Some (Cat ''treated'')) (Some (Cat ''baseline''))
     = Inr \<lparr>index_names = [PNone],
            columns = [PStr ''input_draw'', PStr ''sex'', PStr ''measure'', PStr ''scenario'',
                       PStr ''subtracted_from'', PStr ''value''],
            rows = [([Num 0], [Num 0, Cat ''female'', Cat ''deaths'', Cat ''baseline'',
                               Cat ''treated'', Num (- 3)]),
                    ([Num 1], [Num 0, Cat ''male'', Cat ''deaths'', Cat ''baseline'',
                               Cat ''treated'', Num (- 3)])]\<rparr> \<and>
   values_at
     [([Num 0, Cat ''female'', Cat ''deaths''], Num 3), ([Num 0, Cat ''male'', Cat ''deaths''], Num 3)]
     [Num 0, Cat ''female'', Cat ''deaths''] = {#Num 3#} \<and>
   values_at
     [([Num 0, Cat ''female'', Cat ''deaths''], Num (- 3)),
      ([Num 0, Cat ''male'', Cat ''deaths''], Num (- 3))]
     [Num 0, Cat ''female'', Cat ''deaths''] = {#Num (- 3)#} \<and>
   image_mset neg_cell {#Num 3#} = {#Num (- 3)#}"
proof -
  define d1 :: "real frame" where "d1 = \<lparr>index_names = [PNone],
            columns = [PStr ''input_draw'', PStr ''sex'', PStr ''measure'', PStr ''scenario'',
                       PStr ''subtracted_from'', PStr ''value''],
            rows = [([Num 0], [Num 0, Cat ''female'', Cat ''deaths'', Cat ''treated'',
                               Cat ''baseline'', Num 3]),
                    ([Num 1], [Num 0, Cat ''male'', Cat ''deaths'', Cat ''treated'',
                               Cat ''baseline'', Num 3])]\<rparr>"
  define d2 :: "real frame" where "d2 = \<lparr>index_names = [PNone],
            columns = [PStr ''input_draw'', PStr ''sex'', PStr ''measure'', PStr ''scenario'',
                       PStr ''subtracted_from'', PStr ''value''],
            rows = [([Num 0], [Num 0, Cat ''female'', Cat ''deaths'', Cat ''baseline'',
                               Cat ''treated'', Num (- 3)]),
                    ([Num 1], [Num 0, Cat ''male'', Cat ''deaths'', Cat ''baseline'',
                               Cat ''treated'', Num (- 3)])]\<rparr>"
  have e1: "difference deaths SCENARIO_COLUMN (Some (Cat ''baseline'')) (Some (Cat ''treated''))
      = Inr d1"
    unfolding d1_def by code_simp
  have e2: "difference deaths SCENARIO_COLUMN (Some (Cat ''treated'')) (Some (Cat ''baseline''))
      = Inr d2"
    unfolding d2_def by code_simp
  have m1: "matched_values deaths SCENARIO_COLUMN d1
      = [([Num 0, Cat ''female'', Cat ''deaths''], Num 3),
         ([Num 0, Cat ''male'', Cat ''deaths''], Num 3)]"
    unfolding d1_def by code_simp
  have m2: "matched_values deaths SCENARIO_COLUMN d2
      = [([Num 0, Cat ''female'', Cat ''deaths''], Num (- 3)),
         ([Num 0, Cat ''male'', Cat ''deaths''], Num (- 3))]"
    unfolding d2_def by code_simp
  have h1: "PNone \<notin> set (columns deaths)"
    by (simp add: deaths_def DataFrame_def)
  have k1: "[Num 0, Cat ''female'', Cat ''deaths'']
      \<in> fst ` set (matched_values deaths SCENARIO_COLUMN d1)"
    unfolding m1 by simp
  have k2: "[Num 0, Cat ''female'', Cat ''deaths'']
      \<in> fst ` set (matched_values deaths SCENARIO_COLUMN d2)"
    unfolding m2 by simp
  have "image_mset neg_cell {#Num 3#} = {#Num (- 3)#}"
    using difference_swapped_ids_negated [OF e1 e2 h1 k1 k2]
    unfolding m1 m2 by (simp add: values_at_def)
  then show ?thesis
    using e1 e2 unfolding d1_def d2_def by (simp add: values_at_def)
qed

section \<open>\<^verbatim>\<open>averted\<close> and the same id on both sides\<close>







end
